theory Spec2Isabelle
  imports Complex_Main "HOL-Library.AList"
begin

section \<open>Python values shared by the model\<close>

text \<open>
  The exceptions the modelled code can raise; \<open>CollaboratorError\<close> stands for
  whatever a collaborator outside the modelled files raises. Nothing in the modelled
  files catches an exception, so a call that raises is the value \<open>Inl e\<close> and the
  object state it leaves behind is not observed by any caller.
\<close>

datatype error =
    KeyError
  | IndexError
  | RuntimeError
  | AttributeError
  | ValueError
  | FileNotFoundError
  | CollaboratorError

text \<open>
  A Python \<open>dict\<close> keeps its keys in insertion order, so it is an association list:
  \<open>d[k]\<close> reads the entry of \<open>k\<close> or raises \<open>KeyError\<close>, \<open>d[k] = v\<close> overwrites the
  entry in place or appends a new one, \<open>d.values()\<close> is the list of second components.
\<close>

type_synonym ('k, 'v) dict = "('k \<times> 'v) list"

definition getitem :: "('k, 'v) dict \<Rightarrow> 'k \<Rightarrow> error + 'v" where
  "getitem d k = (case map_of d k of None \<Rightarrow> Inl KeyError | Some v \<Rightarrow> Inr v)"

definition setitem :: "('k, 'v) dict \<Rightarrow> 'k \<Rightarrow> 'v \<Rightarrow> ('k, 'v) dict" where
  "setitem d k v = AList.update k v d"

definition dict_values :: "('k, 'v) dict \<Rightarrow> 'v list" where
  "dict_values d = map snd d"

definition dict_pop :: "('k, 'v) dict \<Rightarrow> 'k \<Rightarrow> ('k, 'v) dict" where
  "dict_pop d k = AList.delete k d"

definition py_all :: "bool list \<Rightarrow> bool" where
  "py_all bs = list_all (\<lambda>b. b) bs"

text \<open>
  Python indexing and slicing of a sequence with integer bounds: a negative bound counts
  from the end, a slice clamps its bounds to the sequence, an index out of range raises
  \<open>IndexError\<close>.
\<close>

definition slice_bound :: "int \<Rightarrow> int \<Rightarrow> int" where
  "slice_bound n i = (if i < 0 then max 0 (i + n) else min i n)"

definition py_slice :: "'a list \<Rightarrow> int \<Rightarrow> int \<Rightarrow> 'a list" where
  "py_slice xs start stop =
     (let n = int (length xs); s = slice_bound n start; e = slice_bound n stop
      in take (nat (e - s)) (drop (nat s) xs))"

definition py_index :: "'a list \<Rightarrow> int \<Rightarrow> error + 'a" where
  "py_index xs i =
     (if 0 \<le> i \<and> i < int (length xs) then Inr (xs ! nat i)
      else if i < 0 \<and> - int (length xs) \<le> i then Inr (xs ! nat (i + int (length xs)))
      else Inl IndexError)"

section \<open>Timesteps and trajectories\<close>

text \<open>
  \<open>Timestep\<close> (rlgym_learn.experience.timestep) and \<open>Trajectory\<close> (trajectory.py) are
  used by the modelled files through the attributes and the positional constructor call
  below. A trajectory's \<open>agent_id\<close>, \<open>final_obs\<close> and \<open>truncated\<close> carry the prefix
  \<open>traj_\<close> to keep them apart from the fields of the same name of a timestep and of a
  tracker. Log probabilities and value predictions are tensors of floats; the code only
  stores, stacks and slices them, so they are lists of reals here.
\<close>

record ('aid, 'obs, 'act, 'rew) timestep =
  agent_id :: 'aid
  obs :: 'obs
  next_obs :: 'obs
  action :: 'act
  reward :: 'rew
  terminated :: bool
  truncated :: bool

record ('aid, 'obs, 'act, 'rew) trajectory =
  traj_agent_id :: 'aid
  obs_list :: "'obs list"
  action_list :: "'act list"
  log_probs :: "real list"
  reward_list :: "'rew list"
  val_preds :: "real list option"
  traj_final_obs :: "'obs option"
  final_val_pred :: real
  traj_truncated :: bool

section \<open>EnvTrajectories: the per-environment tracker\<close>

record ('aid, 'obs, 'act, 'rew) env_trajectories =
  agent_ids :: "'aid list"
  obs_lists :: "('aid, 'obs list) dict"
  action_lists :: "('aid, 'act list) dict"
  reward_lists :: "('aid, 'rew list) dict"
  final_obs :: "('aid, 'obs option) dict"
  dones :: "('aid, bool) dict"
  truncateds :: "('aid, bool) dict"
  log_probs_list :: "real list list"

text \<open>\<open>EnvTrajectories.__init__\<close>: every agent id gets empty sequences and cleared flags.\<close>

definition init_agent ::
  "'aid \<Rightarrow> ('aid, 'obs, 'act, 'rew) env_trajectories \<Rightarrow> ('aid, 'obs, 'act, 'rew) env_trajectories" where
  "init_agent a t =
     t\<lparr>obs_lists := setitem (obs_lists t) a [],
       action_lists := setitem (action_lists t) a [],
       reward_lists := setitem (reward_lists t) a [],
       final_obs := setitem (final_obs t) a None,
       dones := setitem (dones t) a False,
       truncateds := setitem (truncateds t) a False\<rparr>"

definition EnvTrajectories_init :: "'aid list \<Rightarrow> ('aid, 'obs, 'act, 'rew) env_trajectories" where
  "EnvTrajectories_init ids =
     fold init_agent ids
       \<lparr>agent_ids = ids, obs_lists = [], action_lists = [], reward_lists = [],
        final_obs = [], dones = [], truncateds = [], log_probs_list = []\<rparr>"

text \<open>
  The body of the loop of \<open>add_steps\<close> for a timestep whose agent is not done: the three
  sequences are read (\<open>KeyError\<close> when the agent is unknown) and extended, \<open>final_obs\<close>
  becomes the next observation, and a terminated or truncated timestep marks the agent
  done and records the timestep's own truncated flag.
\<close>

definition add_step ::
  "('aid, 'obs, 'act, 'rew) timestep \<Rightarrow> ('aid, 'obs, 'act, 'rew) env_trajectories
     \<Rightarrow> error + ('aid, 'obs, 'act, 'rew) env_trajectories" where
  "add_step ts t =
     (case getitem (obs_lists t) (agent_id ts) of Inl e \<Rightarrow> Inl e | Inr ol \<Rightarrow>
      case getitem (action_lists t) (agent_id ts) of Inl e \<Rightarrow> Inl e | Inr al \<Rightarrow>
      case getitem (reward_lists t) (agent_id ts) of Inl e \<Rightarrow> Inl e | Inr rl \<Rightarrow>
        let t1 = t\<lparr>obs_lists := setitem (obs_lists t) (agent_id ts) (ol @ [obs ts]),
                   action_lists := setitem (action_lists t) (agent_id ts) (al @ [action ts]),
                   reward_lists := setitem (reward_lists t) (agent_id ts) (rl @ [reward ts]),
                   final_obs := setitem (final_obs t) (agent_id ts) (Some (next_obs ts))\<rparr>
        in if terminated ts \<or> truncated ts
           then Inr (t1\<lparr>dones := setitem (dones t1) (agent_id ts) True,
                        truncateds := setitem (truncateds t1) (agent_id ts) (truncated ts)\<rparr>)
           else Inr t1)"

fun add_steps_loop ::
  "('aid, 'obs, 'act, 'rew) timestep list \<Rightarrow> ('aid, 'obs, 'act, 'rew) env_trajectories \<Rightarrow> int
     \<Rightarrow> error + (('aid, 'obs, 'act, 'rew) env_trajectories \<times> int)" where
  "add_steps_loop [] t steps_added = Inr (t, steps_added)"
| "add_steps_loop (ts # rest) t steps_added =
     (case getitem (dones t) (agent_id ts) of
        Inl e \<Rightarrow> Inl e
      | Inr d \<Rightarrow>
          if \<not> d
          then (case add_step ts t of
                  Inl e \<Rightarrow> Inl e
                | Inr t' \<Rightarrow> add_steps_loop rest t' (steps_added + 1))
          else add_steps_loop rest t steps_added)"

definition add_steps ::
  "('aid, 'obs, 'act, 'rew) timestep list \<Rightarrow> real list \<Rightarrow> ('aid, 'obs, 'act, 'rew) env_trajectories
     \<Rightarrow> error + (('aid, 'obs, 'act, 'rew) env_trajectories \<times> int)" where
  "add_steps timesteps lp t =
     (case add_steps_loop timesteps t 0 of
        Inl e \<Rightarrow> Inl e
      | Inr (t', steps_added) \<Rightarrow>
          Inr (t'\<lparr>log_probs_list := log_probs_list t' @ [lp]\<rparr>, steps_added))"

text \<open>
  \<open>finalize\<close>: for every agent id, \<open>truncateds[a] = truncateds[a] or not dones[a]\<close> (the
  \<open>or\<close> reads \<open>dones[a]\<close> only when \<open>truncateds[a]\<close> is false), then \<open>dones[a] = True\<close>.
\<close>

fun finalize_loop ::
  "'aid list \<Rightarrow> ('aid, 'obs, 'act, 'rew) env_trajectories
     \<Rightarrow> error + ('aid, 'obs, 'act, 'rew) env_trajectories" where
  "finalize_loop [] t = Inr t"
| "finalize_loop (a # rest) t =
     (case getitem (truncateds t) a of
        Inl e \<Rightarrow> Inl e
      | Inr tr \<Rightarrow>
          (case (if tr then Inr True
                 else (case getitem (dones t) a of Inl e \<Rightarrow> Inl e | Inr d \<Rightarrow> Inr (\<not> d))) of
             Inl e \<Rightarrow> Inl e
           | Inr v \<Rightarrow>
               finalize_loop rest
                 (t\<lparr>truncateds := setitem (truncateds t) a v,
                    dones := setitem (dones t) a True\<rparr>)))"

definition finalize ::
  "('aid, 'obs, 'act, 'rew) env_trajectories \<Rightarrow> error + ('aid, 'obs, 'act, 'rew) env_trajectories" where
  "finalize t = finalize_loop (agent_ids t) t"

text \<open>
  \<open>torch.stack\<close> of the log-prob rows: it raises on an empty list and on rows of
  different sizes; the result is the rows with their common width. Rows are
  one-dimensional. \<open>log_probs[:, idx]\<close> is column \<open>idx\<close> of every row, or \<open>IndexError\<close>
  when the rows are not that wide.
\<close>

definition torch_stack :: "real list list \<Rightarrow> error + (nat \<times> real list list)" where
  "torch_stack rows =
     (case rows of
        [] \<Rightarrow> Inl RuntimeError
      | r # rs \<Rightarrow>
          if list_all (\<lambda>r'. length r' = length r) rs then Inr (length r, rows)
          else Inl RuntimeError)"

definition column :: "nat \<times> real list list \<Rightarrow> nat \<Rightarrow> error + real list" where
  "column m idx =
     (if idx < fst m then Inr (map (\<lambda>r. r ! idx) (snd m)) else Inl IndexError)"

fun get_trajectories_loop ::
  "nat \<times> real list list \<Rightarrow> (nat \<times> 'aid) list \<Rightarrow> ('aid, 'obs, 'act, 'rew) env_trajectories
     \<Rightarrow> error + ('aid, 'obs, 'act, 'rew) trajectory list" where
  "get_trajectories_loop m [] t = Inr []"
| "get_trajectories_loop m ((idx, a) # rest) t =
     (case getitem (obs_lists t) a of Inl e \<Rightarrow> Inl e | Inr ol \<Rightarrow>
      case getitem (action_lists t) a of Inl e \<Rightarrow> Inl e | Inr al \<Rightarrow>
      case column m idx of Inl e \<Rightarrow> Inl e | Inr lps \<Rightarrow>
      case getitem (reward_lists t) a of Inl e \<Rightarrow> Inl e | Inr rl \<Rightarrow>
      case getitem (final_obs t) a of Inl e \<Rightarrow> Inl e | Inr fo \<Rightarrow>
      case getitem (truncateds t) a of Inl e \<Rightarrow> Inl e | Inr tr \<Rightarrow>
      case get_trajectories_loop m rest t of Inl e \<Rightarrow> Inl e | Inr trajectories \<Rightarrow>
        Inr (\<lparr>traj_agent_id = a, obs_list = ol, action_list = al, log_probs = lps,
              reward_list = rl, val_preds = None, traj_final_obs = fo,
              final_val_pred = 0, traj_truncated = tr\<rparr> # trajectories))"

definition get_trajectories ::
  "('aid, 'obs, 'act, 'rew) env_trajectories \<Rightarrow> error + ('aid, 'obs, 'act, 'rew) trajectory list" where
  "get_trajectories t =
     (case torch_stack (log_probs_list t) of
        Inl e \<Rightarrow> Inl e
      | Inr m \<Rightarrow> get_trajectories_loop m (enumerate 0 (agent_ids t)) t)"

subsection \<open>Notions used to state the properties of the tracker\<close>

text \<open>
  The constructor gives each of the six dictionaries of a tracker exactly the agent ids
  as keys, each once, and \<open>add_steps\<close> and \<open>finalize\<close> keep it so: this is
  \<open>tracker_wf\<close>.
\<close>

definition dict_keys :: "('k, 'v) dict \<Rightarrow> 'k list" where
  "dict_keys d = map fst d"

definition keys_are :: "('k, 'v) dict \<Rightarrow> 'k list \<Rightarrow> bool" where
  "keys_are d ks = (distinct (dict_keys d) \<and> set (dict_keys d) = set ks)"

definition tracker_wf :: "('aid, 'obs, 'act, 'rew) env_trajectories \<Rightarrow> bool" where
  "tracker_wf t =
     (keys_are (obs_lists t) (agent_ids t) \<and> keys_are (action_lists t) (agent_ids t) \<and>
      keys_are (reward_lists t) (agent_ids t) \<and> keys_are (final_obs t) (agent_ids t) \<and>
      keys_are (dones t) (agent_ids t) \<and> keys_are (truncateds t) (agent_ids t))"

text \<open>Agent \<open>a\<close> has the same entries in \<open>t'\<close> as in \<open>t\<close>.\<close>

definition untouched ::
  "'aid \<Rightarrow> ('aid, 'obs, 'act, 'rew) env_trajectories \<Rightarrow> ('aid, 'obs, 'act, 'rew) env_trajectories \<Rightarrow> bool" where
  "untouched a t t' =
     (map_of (obs_lists t') a = map_of (obs_lists t) a \<and>
      map_of (action_lists t') a = map_of (action_lists t) a \<and>
      map_of (reward_lists t') a = map_of (reward_lists t) a \<and>
      map_of (final_obs t') a = map_of (final_obs t) a \<and>
      map_of (dones t') a = map_of (dones t) a \<and>
      map_of (truncateds t') a = map_of (truncateds t) a)"

text \<open>
  A sequence of \<open>add_steps\<close> calls, each a list of timesteps with its log-prob row; and
  the trajectories of a tracker seeded with \<open>ids\<close> and taken through such calls.
\<close>

fun add_steps_calls ::
  "(('aid, 'obs, 'act, 'rew) timestep list \<times> real list) list \<Rightarrow> ('aid, 'obs, 'act, 'rew) env_trajectories
     \<Rightarrow> error + ('aid, 'obs, 'act, 'rew) env_trajectories" where
  "add_steps_calls [] t = Inr t"
| "add_steps_calls (c # rest) t =
     (case add_steps (fst c) (snd c) t of
        Inl e \<Rightarrow> Inl e
      | Inr r \<Rightarrow> add_steps_calls rest (fst r))"

definition tracker_trajectories ::
  "'aid list \<Rightarrow> (('aid, 'obs, 'act, 'rew) timestep list \<times> real list) list
     \<Rightarrow> error + ('aid, 'obs, 'act, 'rew) trajectory list" where
  "tracker_trajectories ids calls =
     (case add_steps_calls calls (EnvTrajectories_init ids) of
        Inl e \<Rightarrow> Inl e
      | Inr t \<Rightarrow> get_trajectories t)"

text \<open>Every agent's observation, action and reward sequences have one length.\<close>

definition lengths_agree :: "('aid, 'obs, 'act, 'rew) env_trajectories \<Rightarrow> bool" where
  "lengths_agree t =
     (\<forall>a. map_option length (map_of (obs_lists t) a) = map_option length (map_of (action_lists t) a) \<and>
          map_option length (map_of (action_lists t) a) = map_option length (map_of (reward_lists t) a))"

text \<open>
  The number of calls in a sequence of \<open>add_steps\<close> calls at whose start agent \<open>a\<close> was
  not yet done.
\<close>

fun calls_while_not_done ::
  "'aid \<Rightarrow> (('aid, 'obs, 'act, 'rew) timestep list \<times> real list) list
     \<Rightarrow> ('aid, 'obs, 'act, 'rew) env_trajectories \<Rightarrow> nat" where
  "calls_while_not_done a [] t = 0"
| "calls_while_not_done a (c # rest) t =
     (if map_of (dones t) a = Some False then 1 else 0) +
     (case add_steps (fst c) (snd c) t of
        Inl e \<Rightarrow> 0
      | Inr r \<Rightarrow> calls_while_not_done a rest (fst r))"

section \<open>PPOAgentController\<close>

text \<open>
  The collaborators the controller holds are objects of classes outside the modelled
  files. Each is the record of the methods the controller calls, a method being the
  outcome of its call: an error, or an opaque payload of type \<open>'d\<close>. A
  \<open>save_checkpoint\<close> method yields what it writes into the folder it is given.
\<close>

record 'd ppo_agent_controller_data =
  ppo_data :: 'd
  trajectory_processor_data :: 'd
  data_cumulative_timesteps :: int
  iteration_time :: real
  timesteps_collected :: int
  timestep_collection_time :: real

record ('aid, 'obs, 'd) ppo_learner =
  critic :: "'aid list \<Rightarrow> 'obs option list \<Rightarrow> error + real list"
  learner_learn :: "error + 'd"
  learner_save_checkpoint :: "error + 'd"

record ('aid, 'obs, 'act, 'rew, 'd) experience_buffer =
  submit_experience :: "('aid, 'obs, 'act, 'rew) trajectory list \<Rightarrow> error + 'd"
  buffer_save_checkpoint :: "error + 'd"

record ('sm, 'd) metrics_logger_obj =
  collect_agent_metrics :: "'d ppo_agent_controller_data \<Rightarrow> error + 'd"
  collect_state_metrics :: "'sm list \<Rightarrow> error + 'd"
  report_metrics :: "string \<Rightarrow> 'd \<Rightarrow> 'd \<Rightarrow> string option \<Rightarrow> error + unit"
  logger_save_checkpoint :: "error + 'd"

text \<open>
  The fields of the configuration that the modelled methods read
  (\<open>config.agent_controller_config\<close> and \<open>config.agent_controller_name\<close>).
\<close>

record controller_config =
  agent_controller_name :: string
  timesteps_per_iteration :: int
  save_every_ts :: int
  n_checkpoints_to_keep :: int
  log_to_wandb :: bool

text \<open>
  The controller's attributes. \<open>metrics_logger\<close> is \<open>None\<close> when no factory was given.
  \<open>timestep_collection_end_time\<close> is an attribute that exists only once
  \<open>process_timestep_data\<close> has set it; \<open>wandb_run\<close> holds the id of the run object, or
  \<open>None\<close>. Times are floats that the code stores and subtracts; they are reals here.
\<close>

record ('aid, 'obs, 'act, 'rew, 'sm, 'd) ppo_agent_controller =
  config :: controller_config
  learner :: "('aid, 'obs, 'd) ppo_learner"
  experience_buffer :: "('aid, 'obs, 'act, 'rew, 'd) experience_buffer"
  metrics_logger :: "('sm, 'd) metrics_logger_obj option"
  current_env_trajectories :: "(string, ('aid, 'obs, 'act, 'rew) env_trajectories) dict"
  current_trajectories :: "('aid, 'obs, 'act, 'rew) trajectory list"
  iteration_state_metrics :: "'sm list"
  cur_iteration :: int
  iteration_timesteps :: int
  cumulative_timesteps :: int
  iteration_start_time :: real
  timestep_collection_start_time :: real
  ts_since_last_save :: int
  timestep_collection_end_time :: "real option"
  wandb_run :: "string option"
  wandb_run_id :: "string option"

text \<open>
  \<open>__init__\<close>, followed by the assignment of the configuration with which \<open>load\<close>
  starts: \<open>cur_time\<close> is the reading of \<open>time.perf_counter()\<close>.
\<close>

definition PPOAgentController_init ::
  "controller_config \<Rightarrow> ('aid, 'obs, 'd) ppo_learner \<Rightarrow> ('aid, 'obs, 'act, 'rew, 'd) experience_buffer
     \<Rightarrow> ('sm, 'd) metrics_logger_obj option \<Rightarrow> real
     \<Rightarrow> ('aid, 'obs, 'act, 'rew, 'sm, 'd) ppo_agent_controller" where
  "PPOAgentController_init cfg lrn buf metrics_logger_factory cur_time =
     \<lparr>config = cfg, learner = lrn, experience_buffer = buf,
      metrics_logger = metrics_logger_factory,
      current_env_trajectories = [], current_trajectories = [],
      iteration_state_metrics = [], cur_iteration = 0, iteration_timesteps = 0,
      cumulative_timesteps = 0, iteration_start_time = cur_time,
      timestep_collection_start_time = cur_time, ts_since_last_save = 0,
      timestep_collection_end_time = None, wandb_run = None, wandb_run_id = None\<rparr>"

subsection \<open>choose_env_actions\<close>

datatype env_action_response = STEP_RESPONSE | RESET_RESPONSE

text \<open>
  The body of the loop of \<open>choose_env_actions\<close> for one environment id: the response it
  stores for the id, and the controller it leaves.
\<close>

definition choose_env_action ::
  "string \<Rightarrow> ('aid, 'obs, 'act, 'rew, 'sm, 'd) ppo_agent_controller
     \<Rightarrow> error + (env_action_response \<times> ('aid, 'obs, 'act, 'rew, 'sm, 'd) ppo_agent_controller)" where
  "choose_env_action env_id c =
     (case map_of (current_env_trajectories c) env_id of
        None \<Rightarrow> Inr (STEP_RESPONSE, c)
      | Some t \<Rightarrow>
          if py_all (dict_values (dones t))
          then (case get_trajectories t of
                  Inl e \<Rightarrow> Inl e
                | Inr trajectories \<Rightarrow>
                    Inr (RESET_RESPONSE,
                         c\<lparr>current_env_trajectories := dict_pop (current_env_trajectories c) env_id,
                           current_trajectories := current_trajectories c @ trajectories\<rparr>))
          else Inr (STEP_RESPONSE, c))"

fun choose_env_actions_loop ::
  "string list \<Rightarrow> (string, env_action_response) dict
     \<Rightarrow> ('aid, 'obs, 'act, 'rew, 'sm, 'd) ppo_agent_controller
     \<Rightarrow> error + ((string, env_action_response) dict \<times> ('aid, 'obs, 'act, 'rew, 'sm, 'd) ppo_agent_controller)" where
  "choose_env_actions_loop [] env_action_responses c = Inr (env_action_responses, c)"
| "choose_env_actions_loop (env_id # rest) env_action_responses c =
     (case choose_env_action env_id c of
        Inl e \<Rightarrow> Inl e
      | Inr r \<Rightarrow>
          choose_env_actions_loop rest (setitem env_action_responses env_id (fst r)) (snd r))"

definition choose_env_actions ::
  "string list \<Rightarrow> ('aid, 'obs, 'act, 'rew, 'sm, 'd) ppo_agent_controller
     \<Rightarrow> error + ((string, env_action_response) dict \<times> ('aid, 'obs, 'act, 'rew, 'sm, 'd) ppo_agent_controller)" where
  "choose_env_actions state_info c = choose_env_actions_loop state_info [] c"

subsection \<open>_update_value_predictions\<close>

text \<open>
  The first loop: per trajectory, \<open>obs_list + [final_obs]\<close> and as many copies of the
  agent id are appended to the critic's inputs, and the range \<open>(start, stop)\<close> is
  recorded. \<open>final_obs\<close> may be \<open>None\<close>, so the observations passed are options.
\<close>

fun critic_input_loop ::
  "('aid, 'obs, 'act, 'rew) trajectory list \<Rightarrow> int \<Rightarrow> (int \<times> int) list \<Rightarrow> 'aid list \<Rightarrow> 'obs option list
     \<Rightarrow> (int \<times> int) list \<times> 'aid list \<times> 'obs option list" where
  "critic_input_loop [] start traj_timestep_idx_ranges critic_agent_id_input critic_obs_input =
     (traj_timestep_idx_ranges, critic_agent_id_input, critic_obs_input)"
| "critic_input_loop (trajectory # rest) start traj_timestep_idx_ranges critic_agent_id_input critic_obs_input =
     (let obs_l = map Some (obs_list trajectory) @ [traj_final_obs trajectory];
          traj_len = length obs_l;
          agent_id_list = replicate traj_len (traj_agent_id trajectory);
          stop = start + int traj_len
      in critic_input_loop rest stop (traj_timestep_idx_ranges @ [(start, stop)])
           (critic_agent_id_input @ agent_id_list) (critic_obs_input @ obs_l))"

text \<open>
  The second loop walks the ranges with their index into \<open>current_trajectories\<close>, that
  is, in step with the trajectories: \<open>val_preds[start : stop - 1]\<close> is a slice,
  \<open>val_preds[stop - 1]\<close> an index that raises when the critic returned too few values.
\<close>

fun assign_val_preds_loop ::
  "(int \<times> int) list \<Rightarrow> ('aid, 'obs, 'act, 'rew) trajectory list \<Rightarrow> real list
     \<Rightarrow> error + ('aid, 'obs, 'act, 'rew) trajectory list" where
  "assign_val_preds_loop [] trajectories vp = Inr trajectories"
| "assign_val_preds_loop ((start, stop) # ranges) [] vp = Inl IndexError"
| "assign_val_preds_loop ((start, stop) # ranges) (trajectory # rest) vp =
     (case py_index vp (stop - 1) of
        Inl e \<Rightarrow> Inl e
      | Inr v \<Rightarrow>
          (case assign_val_preds_loop ranges rest vp of
             Inl e \<Rightarrow> Inl e
           | Inr rest' \<Rightarrow>
               Inr (trajectory\<lparr>val_preds := Some (py_slice vp start (stop - 1)),
                                final_val_pred := v\<rparr> # rest')))"

definition update_value_predictions ::
  "('aid, 'obs, 'act, 'rew, 'sm, 'd) ppo_agent_controller
     \<Rightarrow> error + ('aid, 'obs, 'act, 'rew, 'sm, 'd) ppo_agent_controller" where
  "update_value_predictions c =
     (case critic_input_loop (current_trajectories c) 0 [] [] [] of
        (traj_timestep_idx_ranges, critic_agent_id_input, critic_obs_input) \<Rightarrow>
          (case critic (learner c) critic_agent_id_input critic_obs_input of
             Inl e \<Rightarrow> Inl e
           | Inr vp \<Rightarrow>
               (case assign_val_preds_loop traj_timestep_idx_ranges (current_trajectories c) vp of
                  Inl e \<Rightarrow> Inl e
                | Inr trajectories \<Rightarrow> Inr (c\<lparr>current_trajectories := trajectories\<rparr>))))"

subsection \<open>_learn\<close>

text \<open>
  The first loop of \<open>_learn\<close>: every open tracker is finalized in place and its
  trajectories are appended to the completed list.
\<close>

fun finalize_trackers_loop ::
  "(string, ('aid, 'obs, 'act, 'rew) env_trajectories) dict \<Rightarrow> ('aid, 'obs, 'act, 'rew) trajectory list
     \<Rightarrow> error + ((string, ('aid, 'obs, 'act, 'rew) env_trajectories) dict \<times> ('aid, 'obs, 'act, 'rew) trajectory list)" where
  "finalize_trackers_loop [] trajectories = Inr ([], trajectories)"
| "finalize_trackers_loop (entry # rest) trajectories =
     (case finalize (snd entry) of
        Inl e \<Rightarrow> Inl e
      | Inr t' \<Rightarrow>
          (case get_trajectories t' of
             Inl e \<Rightarrow> Inl e
           | Inr new \<Rightarrow>
               (case finalize_trackers_loop rest (trajectories @ new) of
                  Inl e \<Rightarrow> Inl e
                | Inr r \<Rightarrow> Inr ((fst entry, t') # fst r, snd r))))"

text \<open>
  The metrics block of \<open>_learn\<close>, run only when a metrics logger is held. Reading
  \<open>timestep_collection_end_time\<close> raises when the attribute was never set.
\<close>

definition report_iteration_metrics ::
  "('sm, 'd) metrics_logger_obj \<Rightarrow> 'd \<Rightarrow> 'd \<Rightarrow> real
     \<Rightarrow> ('aid, 'obs, 'act, 'rew, 'sm, 'd) ppo_agent_controller \<Rightarrow> error + unit" where
  "report_iteration_metrics ml ppo tpd cur_time c =
     (case timestep_collection_end_time c of
        None \<Rightarrow> Inl AttributeError
      | Some end_time \<Rightarrow>
          (case collect_agent_metrics ml
                  \<lparr>ppo_data = ppo, trajectory_processor_data = tpd,
                   data_cumulative_timesteps = cumulative_timesteps c,
                   iteration_time = cur_time - iteration_start_time c,
                   timesteps_collected = iteration_timesteps c,
                   timestep_collection_time = end_time - timestep_collection_start_time c\<rparr> of
             Inl e \<Rightarrow> Inl e
           | Inr agent_metrics \<Rightarrow>
               (case collect_state_metrics ml (iteration_state_metrics c) of
                  Inl e \<Rightarrow> Inl e
                | Inr state_metrics \<Rightarrow>
                    report_metrics ml (agent_controller_name (config c)) state_metrics
                      agent_metrics (wandb_run c))))"

text \<open>
  \<open>_learn\<close>; \<open>cur_time\<close> and \<open>restart_time\<close> are the two readings of
  \<open>time.perf_counter()\<close>, in the order the code takes them.
\<close>

definition learn ::
  "real \<Rightarrow> real \<Rightarrow> ('aid, 'obs, 'act, 'rew, 'sm, 'd) ppo_agent_controller
     \<Rightarrow> error + ('aid, 'obs, 'act, 'rew, 'sm, 'd) ppo_agent_controller" where
  "learn cur_time restart_time c =
     (case finalize_trackers_loop (current_env_trajectories c) (current_trajectories c) of
        Inl e \<Rightarrow> Inl e
      | Inr r \<Rightarrow>
     (case update_value_predictions
             (c\<lparr>current_env_trajectories := fst r, current_trajectories := snd r\<rparr>) of
        Inl e \<Rightarrow> Inl e
      | Inr c1 \<Rightarrow>
     (case submit_experience (experience_buffer c1) (current_trajectories c1) of
        Inl e \<Rightarrow> Inl e
      | Inr tpd \<Rightarrow>
     (case learner_learn (learner c1) of
        Inl e \<Rightarrow> Inl e
      | Inr ppo \<Rightarrow>
     (case (case metrics_logger c1 of
              None \<Rightarrow> Inr ()
            | Some ml \<Rightarrow> report_iteration_metrics ml ppo tpd cur_time c1) of
        Inl e \<Rightarrow> Inl e
      | Inr u \<Rightarrow>
          Inr (c1\<lparr>iteration_state_metrics := [],
                  current_env_trajectories := [],
                  current_trajectories := [],
                  ts_since_last_save := ts_since_last_save c1 + iteration_timesteps c1,
                  iteration_timesteps := 0,
                  iteration_start_time := cur_time,
                  timestep_collection_start_time := restart_time\<rparr>))))))"

subsection \<open>Checkpoint directories\<close>

text \<open>
  \<open>str\<close> of an integer and \<open>int\<close> of a string, base ten. \<open>int\<close> strips ASCII
  whitespace, takes one optional sign, and reads decimal digits that single underscores
  may separate; anything else is \<open>ValueError\<close>. Directory names are ASCII here.
\<close>

definition digit_char :: "nat \<Rightarrow> char" where
  "digit_char d =
     (if d = 0 then CHR ''0'' else if d = 1 then CHR ''1'' else if d = 2 then CHR ''2''
      else if d = 3 then CHR ''3'' else if d = 4 then CHR ''4'' else if d = 5 then CHR ''5''
      else if d = 6 then CHR ''6'' else if d = 7 then CHR ''7'' else if d = 8 then CHR ''8''
      else CHR ''9'')"

definition digit_val :: "char \<Rightarrow> nat option" where
  "digit_val ch =
     (if ch = CHR ''0'' then Some 0 else if ch = CHR ''1'' then Some 1
      else if ch = CHR ''2'' then Some 2 else if ch = CHR ''3'' then Some 3
      else if ch = CHR ''4'' then Some 4 else if ch = CHR ''5'' then Some 5
      else if ch = CHR ''6'' then Some 6 else if ch = CHR ''7'' then Some 7
      else if ch = CHR ''8'' then Some 8 else if ch = CHR ''9'' then Some 9
      else None)"

fun str_nat :: "nat \<Rightarrow> string" where
  "str_nat n = (if n < 10 then [digit_char n] else str_nat (n div 10) @ [digit_char (n mod 10)])"

definition py_str :: "int \<Rightarrow> string" where
  "py_str i = (if i < 0 then CHR ''-'' # str_nat (nat (- i)) else str_nat (nat i))"

definition is_space :: "char \<Rightarrow> bool" where
  "is_space ch = (ch \<in> set [CHR '' '', CHR 0x09, CHR 0x0A, CHR 0x0B, CHR 0x0C, CHR 0x0D])"

definition py_strip :: "string \<Rightarrow> string" where
  "py_strip s = rev (dropWhile is_space (rev (dropWhile is_space s)))"

fun int_digits_loop :: "nat \<Rightarrow> string \<Rightarrow> nat option" where
  "int_digits_loop acc [] = Some acc"
| "int_digits_loop acc [ch] =
     (case digit_val ch of None \<Rightarrow> None | Some d \<Rightarrow> Some (10 * acc + d))"
| "int_digits_loop acc (ch # ch' # rest) =
     (if ch = CHR ''_''
      then (case digit_val ch' of
              None \<Rightarrow> None
            | Some d \<Rightarrow> int_digits_loop (10 * acc + d) rest)
      else (case digit_val ch of
              None \<Rightarrow> None
            | Some d \<Rightarrow> int_digits_loop (10 * acc + d) (ch' # rest)))"

definition int_digits :: "string \<Rightarrow> nat option" where
  "int_digits s =
     (case s of
        [] \<Rightarrow> None
      | ch # rest \<Rightarrow>
          (case digit_val ch of None \<Rightarrow> None | Some d \<Rightarrow> int_digits_loop d rest))"

definition py_int :: "string \<Rightarrow> error + int" where
  "py_int s =
     (case py_strip s of
        [] \<Rightarrow> Inl ValueError
      | ch # rest \<Rightarrow>
          if ch = CHR ''-''
          then (case int_digits rest of None \<Rightarrow> Inl ValueError | Some n \<Rightarrow> Inr (- int n))
          else if ch = CHR ''+''
          then (case int_digits rest of None \<Rightarrow> Inl ValueError | Some n \<Rightarrow> Inr (int n))
          else (case int_digits (ch # rest) of None \<Rightarrow> Inl ValueError | Some n \<Rightarrow> Inr (int n)))"

text \<open>
  The scalar record written to \<open>ppo_agent.json\<close>; \<open>json_wandb_run_id\<close> is \<open>None\<close>
  when the key is absent. \<open>json\<close> and \<open>pickle\<close> are taken to write and read back
  these values unchanged.
\<close>

record ppo_agent_json =
  json_cur_iteration :: int
  json_iteration_timesteps :: int
  json_cumulative_timesteps :: int
  json_iteration_start_time :: real
  json_timestep_collection_start_time :: real
  json_wandb_run_id :: "string option"

text \<open>
  One checkpoint directory: the three folders of the collaborators and the three files
  of the controller, each absent (\<open>None\<close>) or holding its content. The field names are
  the source's path constants.
\<close>

record ('aid, 'obs, 'act, 'rew, 'sm, 'd) checkpoint_folder =
  ppo_learner_folder :: "'d option"
  experience_buffer_folder :: "'d option"
  metrics_logger_folder :: "'d option"
  current_trajectories_file :: "('aid, 'obs, 'act, 'rew) trajectory list option"
  iteration_state_metrics_file :: "'sm list option"
  ppo_agent_file :: "ppo_agent_json option"

definition empty_folder :: "('aid, 'obs, 'act, 'rew, 'sm, 'd) checkpoint_folder" where
  "empty_folder =
     \<lparr>ppo_learner_folder = None, experience_buffer_folder = None,
      metrics_logger_folder = None, current_trajectories_file = None,
      iteration_state_metrics_file = None, ppo_agent_file = None\<rparr>"

text \<open>
  \<open>checkpoints_save_folder\<close> is the dictionary from the names of its entries to the
  checkpoint directories; \<open>os.listdir\<close> is its list of names.
\<close>

type_synonym ('aid, 'obs, 'act, 'rew, 'sm, 'd) checkpoints =
  "(string, ('aid, 'obs, 'act, 'rew, 'sm, 'd) checkpoint_folder) dict"

fun int_names :: "string list \<Rightarrow> error + int list" where
  "int_names [] = Inr []"
| "int_names (arg # rest) =
     (case py_int arg of
        Inl e \<Rightarrow> Inl e
      | Inr k \<Rightarrow> (case int_names rest of Inl e \<Rightarrow> Inl e | Inr ks \<Rightarrow> Inr (k # ks)))"

text \<open>\<open>shutil.rmtree\<close> of each listed checkpoint, in order; a missing path raises.\<close>

fun rmtree_loop ::
  "int list \<Rightarrow> ('aid, 'obs, 'act, 'rew, 'sm, 'd) checkpoints
     \<Rightarrow> error + ('aid, 'obs, 'act, 'rew, 'sm, 'd) checkpoints" where
  "rmtree_loop [] fs = Inr fs"
| "rmtree_loop (checkpoint_name # rest) fs =
     (case map_of fs (py_str checkpoint_name) of
        None \<Rightarrow> Inl FileNotFoundError
      | Some folder \<Rightarrow> rmtree_loop rest (dict_pop fs (py_str checkpoint_name)))"

text \<open>The pruning block at the end of \<open>save_checkpoint\<close>.\<close>

definition prune_checkpoints ::
  "int \<Rightarrow> ('aid, 'obs, 'act, 'rew, 'sm, 'd) checkpoints
     \<Rightarrow> error + ('aid, 'obs, 'act, 'rew, 'sm, 'd) checkpoints" where
  "prune_checkpoints keep fs =
     (case int_names (map fst fs) of
        Inl e \<Rightarrow> Inl e
      | Inr existing_checkpoints \<Rightarrow>
          if int (length existing_checkpoints) > keep
          then rmtree_loop (py_slice (sort existing_checkpoints) 0 (- keep)) fs
          else Inr fs)"

text \<open>
  The scalar record of \<open>save_checkpoint\<close>; with \<open>log_to_wandb\<close> it reads
  \<open>self.wandb_run.id\<close>, which raises when no run is held.
\<close>

definition checkpoint_state ::
  "('aid, 'obs, 'act, 'rew, 'sm, 'd) ppo_agent_controller \<Rightarrow> error + ppo_agent_json" where
  "checkpoint_state c =
     (case (if log_to_wandb (config c)
            then (case wandb_run c of None \<Rightarrow> Inl AttributeError | Some run_id \<Rightarrow> Inr (Some run_id))
            else Inr None) of
        Inl e \<Rightarrow> Inl e
      | Inr run_id \<Rightarrow>
          Inr \<lparr>json_cur_iteration = cur_iteration c,
               json_iteration_timesteps = iteration_timesteps c,
               json_cumulative_timesteps = cumulative_timesteps c,
               json_iteration_start_time = iteration_start_time c,
               json_timestep_collection_start_time = timestep_collection_start_time c,
               json_wandb_run_id = run_id\<rparr>)"

text \<open>
  \<open>save_checkpoint\<close>; \<open>now\<close> is the reading of \<open>time.time_ns()\<close>. The directory is
  created or reused (\<open>exist_ok\<close>), the collaborators save in the order learner,
  experience buffer, metrics logger, then the three files are written, then old
  checkpoints are pruned.
\<close>

definition save_checkpoint ::
  "int \<Rightarrow> ('aid, 'obs, 'act, 'rew, 'sm, 'd) ppo_agent_controller
     \<Rightarrow> ('aid, 'obs, 'act, 'rew, 'sm, 'd) checkpoints
     \<Rightarrow> error + ('aid, 'obs, 'act, 'rew, 'sm, 'd) checkpoints" where
  "save_checkpoint now c fs =
     (case learner_save_checkpoint (learner c) of
        Inl e \<Rightarrow> Inl e
      | Inr learner_files \<Rightarrow>
     (case buffer_save_checkpoint (experience_buffer c) of
        Inl e \<Rightarrow> Inl e
      | Inr buffer_files \<Rightarrow>
     (case metrics_logger c of
        None \<Rightarrow> Inl AttributeError
      | Some ml \<Rightarrow>
     (case logger_save_checkpoint ml of
        Inl e \<Rightarrow> Inl e
      | Inr logger_files \<Rightarrow>
     (case checkpoint_state c of
        Inl e \<Rightarrow> Inl e
      | Inr state \<Rightarrow>
          prune_checkpoints (n_checkpoints_to_keep (config c))
            (setitem fs (py_str now)
               \<lparr>ppo_learner_folder = Some learner_files,
                experience_buffer_folder = Some buffer_files,
                metrics_logger_folder = Some logger_files,
                current_trajectories_file = Some (current_trajectories c),
                iteration_state_metrics_file = Some (iteration_state_metrics c),
                ppo_agent_file = Some state\<rparr>))))))"

text \<open>
  \<open>_load_from_checkpoint\<close> on the checkpoint directory that \<open>checkpoint_load_folder\<close>
  names: a missing file is fatal; otherwise the pickled list becomes
  \<open>current_trajectories\<close>, the pickled metrics \<open>iteration_state_metrics\<close>, and the
  scalars are read from the json record.
\<close>

definition load_from_checkpoint ::
  "('aid, 'obs, 'act, 'rew, 'sm, 'd) checkpoint_folder
     \<Rightarrow> ('aid, 'obs, 'act, 'rew, 'sm, 'd) ppo_agent_controller
     \<Rightarrow> error + ('aid, 'obs, 'act, 'rew, 'sm, 'd) ppo_agent_controller" where
  "load_from_checkpoint folder c =
     (case current_trajectories_file folder of
        None \<Rightarrow> Inl FileNotFoundError
      | Some cur_trajectories \<Rightarrow>
     (case iteration_state_metrics_file folder of
        None \<Rightarrow> Inl FileNotFoundError
      | Some state_metrics \<Rightarrow>
     (case ppo_agent_file folder of
        None \<Rightarrow> Inl FileNotFoundError
      | Some state \<Rightarrow>
          Inr (c\<lparr>current_trajectories := cur_trajectories,
                 iteration_state_metrics := state_metrics,
                 cur_iteration := json_cur_iteration state,
                 iteration_timesteps := json_iteration_timesteps state,
                 cumulative_timesteps := json_cumulative_timesteps state,
                 iteration_start_time := json_iteration_start_time state,
                 timestep_collection_start_time := json_timestep_collection_start_time state,
                 wandb_run_id := json_wandb_run_id state\<rparr>))))"

subsection \<open>Notions used to state the properties of the controller\<close>

text \<open>
  A tracker's log-prob rows can be stacked and have a column for every agent: there is
  a row, all rows have the width of the first, and that width covers the agent ids.
\<close>

definition log_rows_ok :: "('aid, 'obs, 'act, 'rew) env_trajectories \<Rightarrow> bool" where
  "log_rows_ok t =
     (case log_probs_list t of
        [] \<Rightarrow> False
      | r # rs \<Rightarrow> length (agent_ids t) \<le> length r \<and> list_all (\<lambda>r'. length r' = length r) rs)"

text \<open>
  The answer that the state of the tracker map gives for an environment id, the queried
  ids whose answer is RESET, and the trajectories that the tracker of an id yields.
\<close>

definition env_decision ::
  "('aid, 'obs, 'act, 'rew, 'sm, 'd) ppo_agent_controller \<Rightarrow> string \<Rightarrow> env_action_response" where
  "env_decision c env_id =
     (case map_of (current_env_trajectories c) env_id of
        None \<Rightarrow> STEP_RESPONSE
      | Some t \<Rightarrow> if py_all (dict_values (dones t)) then RESET_RESPONSE else STEP_RESPONSE)"

definition reset_ids ::
  "('aid, 'obs, 'act, 'rew, 'sm, 'd) ppo_agent_controller \<Rightarrow> string list \<Rightarrow> string list" where
  "reset_ids c state_info = filter (\<lambda>env_id. env_decision c env_id = RESET_RESPONSE) state_info"

definition tracker_output ::
  "('aid, 'obs, 'act, 'rew, 'sm, 'd) ppo_agent_controller \<Rightarrow> string
     \<Rightarrow> ('aid, 'obs, 'act, 'rew) trajectory list" where
  "tracker_output c env_id =
     (case map_of (current_env_trajectories c) env_id of
        None \<Rightarrow> []
      | Some t \<Rightarrow> (case get_trajectories t of Inl e \<Rightarrow> [] | Inr trajectories \<Rightarrow> trajectories))"

text \<open>
  Every queried tracker whose agents are all done has well-formed dictionaries and
  log-prob rows that can be stacked and cover its agents.
\<close>

definition done_trackers_ok ::
  "('aid, 'obs, 'act, 'rew, 'sm, 'd) ppo_agent_controller \<Rightarrow> string list \<Rightarrow> bool" where
  "done_trackers_ok c state_info =
     list_all (\<lambda>env_id.
        case map_of (current_env_trajectories c) env_id of
          None \<Rightarrow> True
        | Some t \<Rightarrow> \<not> py_all (dict_values (dones t)) \<or> (tracker_wf t \<and> log_rows_ok t))
       state_info"

text \<open>
  The flattened critic request of a list of trajectories, the offset at which
  trajectory \<open>i\<close> starts in it, and the trajectories with the values of a flat array
  \<open>vp\<close> filled in from offset \<open>start\<close> on.
\<close>

definition request_agent_ids :: "('aid, 'obs, 'act, 'rew) trajectory list \<Rightarrow> 'aid list" where
  "request_agent_ids trs =
     concat (map (\<lambda>tr. replicate (length (obs_list tr) + 1) (traj_agent_id tr)) trs)"

definition request_obs :: "('aid, 'obs, 'act, 'rew) trajectory list \<Rightarrow> 'obs option list" where
  "request_obs trs = concat (map (\<lambda>tr. map Some (obs_list tr) @ [traj_final_obs tr]) trs)"

definition traj_start :: "('aid, 'obs, 'act, 'rew) trajectory list \<Rightarrow> nat \<Rightarrow> nat" where
  "traj_start trs i = sum_list (map (\<lambda>tr. length (obs_list tr) + 1) (take i trs))"

fun ranges_from :: "int \<Rightarrow> ('aid, 'obs, 'act, 'rew) trajectory list \<Rightarrow> (int \<times> int) list" where
  "ranges_from start [] = []"
| "ranges_from start (tr # trs) =
     (start, start + int (length (obs_list tr) + 1))
       # ranges_from (start + int (length (obs_list tr) + 1)) trs"

fun backfilled ::
  "nat \<Rightarrow> ('aid, 'obs, 'act, 'rew) trajectory list \<Rightarrow> real list
     \<Rightarrow> ('aid, 'obs, 'act, 'rew) trajectory list" where
  "backfilled start [] vp = []"
| "backfilled start (tr # trs) vp =
     tr\<lparr>val_preds := Some (take (length (obs_list tr)) (drop start vp)),
        final_val_pred := vp ! (start + length (obs_list tr))\<rparr>
       # backfilled (start + length (obs_list tr) + 1) trs vp"

text \<open>
  A directory name conforms when \<open>int\<close> reads it and \<open>str\<close> gives the name back: such
  a name is the decimal form of its token, as \<open>str(time.time_ns())\<close> writes it.
\<close>

definition token :: "string \<Rightarrow> int" where
  "token name = (case py_int name of Inl e \<Rightarrow> 0 | Inr k \<Rightarrow> k)"

definition conforming :: "string \<Rightarrow> bool" where
  "conforming name = (case py_int name of Inl e \<Rightarrow> False | Inr k \<Rightarrow> py_str k = name)"

section \<open>Example states\<close>

text \<open>
  One environment with the agents \<open>A\<close> and \<open>B\<close>. The first call delivers a step for
  both, and \<open>A\<close> terminates in it: \<open>ex_tracker\<close> is the tracker after that call. The
  second call delivers a late step for \<open>A\<close> and a step that truncates \<open>B\<close>:
  \<open>ex_tracker_after\<close> is the tracker after it, and \<open>ex_traj_A\<close>, \<open>ex_traj_B\<close> are its
  trajectories.
\<close>

definition ex_tracker :: "(string, nat, nat, int) env_trajectories" where
  "ex_tracker =
     \<lparr>agent_ids = [''A'', ''B''],
      obs_lists = [(''A'', [1]), (''B'', [2])],
      action_lists = [(''A'', [10]), (''B'', [20])],
      reward_lists = [(''A'', [0]), (''B'', [1])],
      final_obs = [(''A'', Some 3), (''B'', Some 4)],
      dones = [(''A'', True), (''B'', False)],
      truncateds = [(''A'', False), (''B'', False)],
      log_probs_list = [[-1, -2]]\<rparr>"

definition ex_first_steps :: "(string, nat, nat, int) timestep list" where
  "ex_first_steps =
     [\<lparr>agent_id = ''A'', obs = 1, next_obs = 3, action = 10, reward = 0,
       terminated = True, truncated = False\<rparr>,
      \<lparr>agent_id = ''B'', obs = 2, next_obs = 4, action = 20, reward = 1,
       terminated = False, truncated = False\<rparr>]"

definition ex_late_steps :: "(string, nat, nat, int) timestep list" where
  "ex_late_steps =
     [\<lparr>agent_id = ''A'', obs = 5, next_obs = 6, action = 50, reward = 7,
       terminated = False, truncated = True\<rparr>,
      \<lparr>agent_id = ''B'', obs = 4, next_obs = 8, action = 40, reward = 2,
       terminated = False, truncated = True\<rparr>]"

definition ex_tracker_after :: "(string, nat, nat, int) env_trajectories" where
  "ex_tracker_after =
     \<lparr>agent_ids = [''A'', ''B''],
      obs_lists = [(''A'', [1]), (''B'', [2, 4])],
      action_lists = [(''A'', [10]), (''B'', [20, 40])],
      reward_lists = [(''A'', [0]), (''B'', [1, 2])],
      final_obs = [(''A'', Some 3), (''B'', Some 8)],
      dones = [(''A'', True), (''B'', True)],
      truncateds = [(''A'', False), (''B'', True)],
      log_probs_list = [[-1, -2], [-3, -4]]\<rparr>"

definition ex_calls :: "((string, nat, nat, int) timestep list \<times> real list) list" where
  "ex_calls = [(ex_first_steps, [-1, -2]), (ex_late_steps, [-3, -4])]"

definition ex_traj_A :: "(string, nat, nat, int) trajectory" where
  "ex_traj_A =
     \<lparr>traj_agent_id = ''A'', obs_list = [1], action_list = [10], log_probs = [-1, -3],
      reward_list = [0], val_preds = None, traj_final_obs = Some 3, final_val_pred = 0,
      traj_truncated = False\<rparr>"

definition ex_traj_B :: "(string, nat, nat, int) trajectory" where
  "ex_traj_B =
     \<lparr>traj_agent_id = ''B'', obs_list = [2, 4], action_list = [20, 40], log_probs = [-2, -4],
      reward_list = [1, 2], val_preds = None, traj_final_obs = Some 8, final_val_pred = 0,
      traj_truncated = True\<rparr>"

text \<open>
  Three completed trajectories with 3, 1 and 5 observations, and a critic that answers
  every request with the offsets \<open>0, 1, 2, \<dots>\<close> of its entries, so that a value shows
  the offset it was read from.
\<close>

definition ex_traj :: "string \<Rightarrow> nat list \<Rightarrow> nat \<Rightarrow> (string, nat, nat, int) trajectory" where
  "ex_traj a os fo =
     \<lparr>traj_agent_id = a, obs_list = os, action_list = map (\<lambda>x. 0) os,
      log_probs = map (\<lambda>x. 0) os, reward_list = map (\<lambda>x. 0) os, val_preds = None,
      traj_final_obs = Some fo, final_val_pred = 0, traj_truncated = False\<rparr>"

definition ex_trajs :: "(string, nat, nat, int) trajectory list" where
  "ex_trajs = [ex_traj ''A'' [1, 2, 3] 4, ex_traj ''B'' [5] 6, ex_traj ''C'' [7, 8, 9, 10, 11] 12]"

definition ex_critic :: "string list \<Rightarrow> nat option list \<Rightarrow> error + real list" where
  "ex_critic ids os = Inr (map real [0..<length os])"

definition ex_learner :: "(string, nat, nat) ppo_learner" where
  "ex_learner = \<lparr>critic = ex_critic, learner_learn = Inr 0, learner_save_checkpoint = Inr 1\<rparr>"

definition ex_buffer :: "(string, nat, nat, int, nat) experience_buffer" where
  "ex_buffer = \<lparr>submit_experience = (\<lambda>trs. Inr (length trs)), buffer_save_checkpoint = Inr 2\<rparr>"

definition ex_config :: controller_config where
  "ex_config =
     \<lparr>agent_controller_name = ''ppo'', timesteps_per_iteration = 4, save_every_ts = 8,
      n_checkpoints_to_keep = 5, log_to_wandb = False\<rparr>"

definition ex_controller :: "(string, nat, nat, int, nat, nat) ppo_agent_controller" where
  "ex_controller = PPOAgentController_init ex_config ex_learner ex_buffer None 0"

definition ex_backfilled :: "(string, nat, nat, int) trajectory list" where
  "ex_backfilled =
     [(ex_traj ''A'' [1, 2, 3] 4)\<lparr>val_preds := Some [0, 1, 2], final_val_pred := 3\<rparr>,
      (ex_traj ''B'' [5] 6)\<lparr>val_preds := Some [4], final_val_pred := 5\<rparr>,
      (ex_traj ''C'' [7, 8, 9, 10, 11] 12)\<lparr>val_preds := Some [6, 7, 8, 9, 10],
                                            final_val_pred := 11\<rparr>]"

text \<open>
  A controller that holds a finished tracker for \<open>env0\<close> and an unfinished one for
  \<open>env1\<close>, with four timesteps collected in the iteration.
\<close>

definition ex_collecting :: "(string, nat, nat, int, nat, nat) ppo_agent_controller" where
  "ex_collecting =
     ex_controller\<lparr>current_env_trajectories := [(''env0'', ex_tracker_after), (''env1'', ex_tracker)],
                   iteration_state_metrics := [7, 8],
                   iteration_timesteps := 4, cumulative_timesteps := 4,
                   timestep_collection_end_time := Some 2\<rparr>"

text \<open>The collecting controller after a learning step at the clock readings 5 and 6.\<close>

definition ex_learned :: "(string, nat, nat, int, nat, nat) ppo_agent_controller" where
  "ex_learned =
     ex_collecting\<lparr>iteration_state_metrics := [],
                   current_env_trajectories := [],
                   current_trajectories := [],
                   ts_since_last_save := 4,
                   iteration_timesteps := 0,
                   iteration_start_time := 5,
                   timestep_collection_start_time := 6\<rparr>"

text \<open>
  The collecting controller with a metrics logger and one pending trajectory, as it is
  saved; and a checkpoint root that holds the directories 1 to 6.
\<close>

definition ex_logger :: "(nat, nat) metrics_logger_obj" where
  "ex_logger =
     \<lparr>collect_agent_metrics = (\<lambda>d. Inr 0), collect_state_metrics = (\<lambda>ms. Inr (length ms)),
      report_metrics = (\<lambda>name sm am run. Inr ()), logger_save_checkpoint = Inr 3\<rparr>"

definition ex_saving :: "(string, nat, nat, int, nat, nat) ppo_agent_controller" where
  "ex_saving = ex_collecting\<lparr>metrics_logger := Some ex_logger, current_trajectories := [ex_traj_A]\<rparr>"

definition ex_saved_folder :: "(string, nat, nat, int, nat, nat) checkpoint_folder" where
  "ex_saved_folder =
     \<lparr>ppo_learner_folder = Some 1, experience_buffer_folder = Some 2,
      metrics_logger_folder = Some 3,
      current_trajectories_file = Some [ex_traj_A],
      iteration_state_metrics_file = Some [7, 8],
      ppo_agent_file =
        Some \<lparr>json_cur_iteration = 0, json_iteration_timesteps = 4,
              json_cumulative_timesteps = 4, json_iteration_start_time = 0,
              json_timestep_collection_start_time = 0, json_wandb_run_id = None\<rparr>\<rparr>"

definition ex_checkpoints :: "(string, nat, nat, int, nat, nat) checkpoints" where
  "ex_checkpoints =
     [(''4'', empty_folder), (''1'', empty_folder), (''6'', empty_folder),
      (''2'', empty_folder), (''5'', empty_folder), (''3'', empty_folder)]"

text \<open>
  A controller as \<open>__init__\<close> leaves it at clock reading 9, and the same controller
  after loading the checkpoint that \<open>ex_saving\<close> writes.
\<close>

definition ex_fresh :: "(string, nat, nat, int, nat, nat) ppo_agent_controller" where
  "ex_fresh = PPOAgentController_init ex_config ex_learner ex_buffer (Some ex_logger) 9"

definition ex_restored :: "(string, nat, nat, int, nat, nat) ppo_agent_controller" where
  "ex_restored =
     ex_fresh\<lparr>current_trajectories := [ex_traj_A],
              iteration_state_metrics := [7, 8],
              cur_iteration := 0, iteration_timesteps := 4, cumulative_timesteps := 4,
              iteration_start_time := 0, timestep_collection_start_time := 0,
              wandb_run_id := None\<rparr>"

text \<open>
  The end-to-end scenario of the specification: call 1 delivers a step for \<open>A\<close> and
  \<open>B\<close>, call 2 a terminating step for \<open>A\<close> and a step for \<open>B\<close>, call 3 only a
  truncating step for \<open>B\<close>; and the trajectories that the tracker yields after it.
\<close>

definition ex_scenario_calls :: "((string, nat, nat, int) timestep list \<times> real list) list" where
  "ex_scenario_calls =
     [([\<lparr>agent_id = ''A'', obs = 1, next_obs = 2, action = 10, reward = 0,
         terminated = False, truncated = False\<rparr>,
        \<lparr>agent_id = ''B'', obs = 5, next_obs = 6, action = 50, reward = 0,
         terminated = False, truncated = False\<rparr>], [-1, -2]),
      ([\<lparr>agent_id = ''A'', obs = 2, next_obs = 3, action = 20, reward = 1,
         terminated = True, truncated = False\<rparr>,
        \<lparr>agent_id = ''B'', obs = 6, next_obs = 7, action = 60, reward = 0,
         terminated = False, truncated = False\<rparr>], [-3, -4]),
      ([\<lparr>agent_id = ''B'', obs = 7, next_obs = 8, action = 70, reward = 2,
         terminated = False, truncated = True\<rparr>], [-5, -6])]"

definition ex_scenario_trajs :: "(string, nat, nat, int) trajectory list" where
  "ex_scenario_trajs =
     [\<lparr>traj_agent_id = ''A'', obs_list = [1, 2], action_list = [10, 20],
       log_probs = [-1, -3, -5], reward_list = [0, 1], val_preds = None,
       traj_final_obs = Some 3, final_val_pred = 0, traj_truncated = False\<rparr>,
      \<lparr>traj_agent_id = ''B'', obs_list = [5, 6, 7], action_list = [50, 60, 70],
       log_probs = [-2, -4, -6], reward_list = [0, 0, 2], val_preds = None,
       traj_final_obs = Some 8, final_val_pred = 0, traj_truncated = True\<rparr>]"

section \<open>Properties of the tracker\<close>

subsection \<open>Dictionaries\<close>

lemma getitem_Inr: "getitem d k = Inr v \<longleftrightarrow> map_of d k = Some v"
  by (simp add: getitem_def split: option.splits)

lemma dict_pop_filter: "dict_pop fs name = filter (\<lambda>entry. fst entry \<noteq> name) fs"
  by (induction fs) (auto simp: dict_pop_def)

lemma keys_are_lookup: "keys_are d ks \<Longrightarrow> k \<in> set ks \<Longrightarrow> \<exists>v. map_of d k = Some v"
  unfolding keys_are_def dict_keys_def
  by (metis image_set map_of_eq_None_iff not_None_eq)

lemma keys_are_values:
  assumes "keys_are d ks" and "\<And>k. k \<in> set ks \<Longrightarrow> map_of d k = Some v"
  shows "list_all (\<lambda>x. x = v) (dict_values d)"
proof -
  have "x = v" if "(k, x) \<in> set d" for k x
  proof -
    have "map_of d k = Some x"
      using assms(1) that by (simp add: keys_are_def dict_keys_def)
    moreover have "k \<in> set ks"
      using assms(1) that unfolding keys_are_def dict_keys_def by force
    ultimately show ?thesis using assms(2) by fastforce
  qed
  then show ?thesis by (auto simp: list_all_iff dict_values_def)
qed

subsection \<open>finalize\<close>

lemma finalize_loop_props:
  "list_all (\<lambda>a. map_of (dones t) a \<noteq> None \<and> map_of (truncateds t) a \<noteq> None) as \<Longrightarrow>
   \<exists>t'. finalize_loop as t = Inr t' \<and>
     agent_ids t' = agent_ids t \<and> obs_lists t' = obs_lists t \<and> action_lists t' = action_lists t \<and>
     reward_lists t' = reward_lists t \<and> final_obs t' = final_obs t \<and> log_probs_list t' = log_probs_list t \<and>
     map fst (dones t') = map fst (dones t) \<and> map fst (truncateds t') = map fst (truncateds t) \<and>
     (\<forall>b. map_of (dones t') b = (if b \<in> set as then Some True else map_of (dones t) b)) \<and>
     (\<forall>b. map_of (truncateds t') b =
        (if b \<in> set as then Some (the (map_of (truncateds t) b) \<or> \<not> the (map_of (dones t) b))
         else map_of (truncateds t) b))"
proof (induction as arbitrary: t)
  case Nil
  then show ?case by simp
next
  case (Cons a rest)
  from Cons.prems obtain d tr where d: "map_of (dones t) a = Some d" and tr: "map_of (truncateds t) a = Some tr"
    by auto
  define t1 where "t1 = t\<lparr>truncateds := setitem (truncateds t) a (tr \<or> \<not> d), dones := setitem (dones t) a True\<rparr>"
  have step: "finalize_loop (a # rest) t = finalize_loop rest t1"
    using d tr by (auto simp: getitem_def t1_def)
  have pre: "list_all (\<lambda>a. map_of (dones t1) a \<noteq> None \<and> map_of (truncateds t1) a \<noteq> None) rest"
    using Cons.prems by (auto simp: t1_def setitem_def update_conv' list_all_iff)
  from Cons.IH[OF pre] obtain t' where t': "finalize_loop rest t1 = Inr t'"
     "agent_ids t' = agent_ids t1" "obs_lists t' = obs_lists t1" "action_lists t' = action_lists t1"
     "reward_lists t' = reward_lists t1" "final_obs t' = final_obs t1" "log_probs_list t' = log_probs_list t1"
     "map fst (dones t') = map fst (dones t1)" "map fst (truncateds t') = map fst (truncateds t1)"
     "\<forall>b. map_of (dones t') b = (if b \<in> set rest then Some True else map_of (dones t1) b)"
     "\<forall>b. map_of (truncateds t') b =
        (if b \<in> set rest then Some (the (map_of (truncateds t1) b) \<or> \<not> the (map_of (dones t1) b))
         else map_of (truncateds t1) b)"
    by blast
  have k1: "map fst (dones t1) = map fst (dones t)" "map fst (truncateds t1) = map fst (truncateds t)"
    using d tr by (auto simp: t1_def setitem_def update_keys dest!: map_of_SomeD intro: rev_image_eqI)
  show ?case
    unfolding step using t' k1 d tr
    by (auto simp: t1_def setitem_def update_conv')
qed

lemma finalize_loop_done:
  "list_all (\<lambda>a. map_of (dones t) a = Some True \<and> map_of (truncateds t) a \<noteq> None) as \<Longrightarrow>
   finalize_loop as t = Inr t"
proof (induction as)
  case Nil
  then show ?case by simp
next
  case (Cons a rest)
  then show ?case
    by (auto simp: getitem_def setitem_def update_triv)
qed

text \<open>
  Claim C9 (finalize idempotence). For a tracker whose dictionaries hold exactly its agent
  ids (every tracker built by the constructor and \<open>add_steps\<close>), \<open>finalize\<close> returns a
  state \<open>t'\<close> on which \<open>finalize\<close> returns \<open>t'\<close> again; in \<open>t'\<close> every agent is done; an
  agent that was done before keeps its truncated flag, and every other agent ends
  truncated.
\<close>

theorem finalize_idempotent:
  assumes "tracker_wf t"
  shows "\<exists>t'. finalize t = Inr t' \<and> finalize t' = Inr t' \<and>
           py_all (dict_values (dones t')) \<and>
           list_all (\<lambda>a. map_of (dones t') a = Some True \<and>
                        map_of (truncateds t') a =
                          (if map_of (dones t) a = Some True then map_of (truncateds t) a
                           else Some True))
             (agent_ids t)"
proof -
  have present: "list_all (\<lambda>a. map_of (dones t) a \<noteq> None \<and> map_of (truncateds t) a \<noteq> None) (agent_ids t)"
    using assms keys_are_lookup[of "dones t" "agent_ids t"] keys_are_lookup[of "truncateds t" "agent_ids t"]
    by (fastforce simp: tracker_wf_def list_all_iff)
  from finalize_loop_props[OF present] obtain t' where t':
    "finalize_loop (agent_ids t) t = Inr t'" "agent_ids t' = agent_ids t"
    "map fst (dones t') = map fst (dones t)"
    "\<forall>b. map_of (dones t') b = (if b \<in> set (agent_ids t) then Some True else map_of (dones t) b)"
    "\<forall>b. map_of (truncateds t') b =
        (if b \<in> set (agent_ids t) then Some (the (map_of (truncateds t) b) \<or> \<not> the (map_of (dones t) b))
         else map_of (truncateds t) b)"
    by blast
  have once: "finalize t = Inr t'"
    using t'(1) by (simp add: finalize_def)
  have "list_all (\<lambda>a. map_of (dones t') a = Some True \<and> map_of (truncateds t') a \<noteq> None) (agent_ids t')"
    using t'(2,4,5) by (simp add: list_all_iff)
  then have twice: "finalize t' = Inr t'"
    unfolding finalize_def by (rule finalize_loop_done)
  have keys: "keys_are (dones t') (agent_ids t)"
    using assms t'(3) by (simp add: tracker_wf_def keys_are_def dict_keys_def)
  have "list_all (\<lambda>x. x = True) (dict_values (dones t'))"
    using keys t'(4) by (intro keys_are_values[where ks = "agent_ids t"]) auto
  then have all_done: "py_all (dict_values (dones t'))"
    by (simp add: py_all_def)
  have per_agent: "map_of (dones t') a = Some True \<and>
        map_of (truncateds t') a =
          (if map_of (dones t) a = Some True then map_of (truncateds t) a else Some True)"
    if a_in: "a \<in> set (agent_ids t)" for a
  proof -
    obtain d tr where "map_of (dones t) a = Some d" "map_of (truncateds t) a = Some tr"
      using present a_in by (auto simp: list_all_iff)
    then show ?thesis using t'(4,5) a_in by auto
  qed
  show ?thesis
    using once twice all_done per_agent by (auto simp: list_all_iff)
qed

lemma finalize_wf:
  assumes "tracker_wf t" and "finalize t = Inr t'"
  shows "tracker_wf t'"
proof -
  have "list_all (\<lambda>a. map_of (dones t) a \<noteq> None \<and> map_of (truncateds t) a \<noteq> None) (agent_ids t)"
    using assms(1) keys_are_lookup[of "dones t" "agent_ids t"]
      keys_are_lookup[of "truncateds t" "agent_ids t"]
    by (fastforce simp: tracker_wf_def list_all_iff)
  from finalize_loop_props[OF this] assms show ?thesis
    by (auto simp: finalize_def tracker_wf_def keys_are_def dict_keys_def)
qed

subsection \<open>add_steps\<close>

lemma map_of_setitem: "map_of (setitem d k v) x = (if x = k then Some v else map_of d x)"
  by (simp add: setitem_def update_conv')

lemma keys_are_setitem: "keys_are d ks \<Longrightarrow> k \<in> set ks \<Longrightarrow> keys_are (setitem d k v) ks"
  unfolding keys_are_def dict_keys_def setitem_def
  by (auto simp: distinct_update dom_update simp flip: image_set)

lemma getitem_keys: "getitem d k = Inr v \<Longrightarrow> keys_are d ks \<Longrightarrow> k \<in> set ks"
  unfolding getitem_Inr keys_are_def dict_keys_def
  by (force dest!: map_of_SomeD)

lemma untouched_refl: "untouched a t t"
  by (simp add: untouched_def)

lemma untouched_trans: "untouched a t t1 \<Longrightarrow> untouched a t1 t2 \<Longrightarrow> untouched a t t2"
  by (simp add: untouched_def)

lemma add_step_frame:
  assumes "add_step ts t = Inr t'"
  shows "agent_ids t' = agent_ids t" and "log_probs_list t' = log_probs_list t"
    and "a \<noteq> agent_id ts \<Longrightarrow> untouched a t t'"
  using assms
  by (auto simp: add_step_def Let_def untouched_def map_of_setitem split: sum.splits if_splits)

lemma add_step_wf:
  assumes "add_step ts t = Inr t'" and "tracker_wf t"
  shows "tracker_wf t'"
proof -
  from assms(1) obtain ol where "getitem (obs_lists t) (agent_id ts) = Inr ol"
    by (auto simp: add_step_def split: sum.splits)
  with assms(2) have "agent_id ts \<in> set (agent_ids t)"
    by (auto simp: tracker_wf_def dest: getitem_keys)
  with assms show ?thesis
    by (auto simp: add_step_def Let_def tracker_wf_def keys_are_setitem split: sum.splits if_splits)
qed

lemma add_steps_loop_frame:
  "add_steps_loop tss t n = Inr (t', n') \<Longrightarrow>
   agent_ids t' = agent_ids t \<and> log_probs_list t' = log_probs_list t \<and>
   (tracker_wf t \<longrightarrow> tracker_wf t') \<and> n \<le> n' \<and> n' \<le> n + int (length tss)"
proof (induction tss arbitrary: t n)
  case Nil
  then show ?case by simp
next
  case (Cons ts rest)
  from Cons.prems obtain d where d: "getitem (dones t) (agent_id ts) = Inr d"
    by (auto split: sum.splits)
  show ?case
  proof (cases d)
    case True
    with Cons.prems d have "add_steps_loop rest t n = Inr (t', n')" by simp
    from Cons.IH[OF this] show ?thesis by simp
  next
    case False
    with Cons.prems d obtain t1 where t1: "add_step ts t = Inr t1"
      and rest: "add_steps_loop rest t1 (n + 1) = Inr (t', n')"
      by (auto split: sum.splits)
    from Cons.IH[OF rest] add_step_frame(1,2)[OF t1] add_step_wf[OF t1]
    show ?thesis by auto
  qed
qed

lemma add_steps_loop_done_agent:
  assumes "map_of (dones t) a = Some True"
  shows "add_steps_loop (filter (\<lambda>ts. agent_id ts \<noteq> a) tss) t n = add_steps_loop tss t n"
    and "add_steps_loop tss t n = Inr (t', n') \<Longrightarrow> untouched a t t'"
  using assms
proof (induction tss arbitrary: t n)
  case Nil
  { case 1 show ?case by simp }
  { case 2 then show ?case by (simp add: untouched_refl) }
next
  case (Cons ts rest)
  { case 1
    show ?case
    proof (cases "agent_id ts = a")
      case True
      then show ?thesis using 1 Cons.IH(1)[of t n] by (simp add: getitem_def)
    next
      case False
      have "add_steps_loop (filter (\<lambda>ts. agent_id ts \<noteq> a) rest) t1 m = add_steps_loop rest t1 m"
        if "add_step ts t = Inr t1" for t1 m
      proof -
        from add_step_frame(3)[OF that, of a] False have "map_of (dones t1) a = Some True"
          using 1 by (simp add: untouched_def)
        then show ?thesis by (rule Cons.IH(1))
      qed
      then show ?thesis using False 1 Cons.IH(1)[of t n]
        by (auto split: sum.splits)
    qed }
  { case 2
    from 2(1) obtain d where d: "getitem (dones t) (agent_id ts) = Inr d"
      by (auto split: sum.splits)
    show ?case
    proof (cases d)
      case True
      with 2 d have "add_steps_loop rest t n = Inr (t', n')" by simp
      then show ?thesis using Cons.IH(2) 2(2) by blast
    next
      case False
      with 2 d obtain t1 where t1: "add_step ts t = Inr t1"
        and rest: "add_steps_loop rest t1 (n + 1) = Inr (t', n')"
        by (auto split: sum.splits)
      from False d 2(2) have "a \<noteq> agent_id ts" by (auto simp: getitem_def)
      from add_step_frame(3)[OF t1 this] have u: "untouched a t t1" .
      then have "map_of (dones t1) a = Some True" using 2(2) by (simp add: untouched_def)
      from Cons.IH(2)[OF rest this] u show ?thesis by (rule untouched_trans[rotated])
    qed }
qed

lemma add_steps_loop_all_done:
  "list_all (\<lambda>ts. map_of (dones t) (agent_id ts) = Some True) tss \<Longrightarrow>
   add_steps_loop tss t n = Inr (t, n)"
  by (induction tss) (auto simp: getitem_def)

text \<open>
  Claim C6 (drop after done). When agent \<open>a\<close> is marked done, a call of \<open>add_steps\<close> has
  the outcome of the same call without the timesteps of \<open>a\<close>; when it returns, the
  sequences, \<open>final_obs\<close>, done and truncated flag of \<open>a\<close> are unchanged, the count
  returned is at most the number of timesteps of other agents, and exactly one log-prob
  row has been appended. When every timestep of the call is for an agent that is already
  done, the call returns the count 0 and changes nothing but the appended row.
\<close>

theorem drop_after_done:
  assumes "map_of (dones t) a = Some True"
  shows "add_steps (filter (\<lambda>ts. agent_id ts \<noteq> a) tss) lp t = add_steps tss lp t \<and>
         (\<forall>t' n. add_steps tss lp t = Inr (t', n) \<longrightarrow>
            untouched a t t' \<and>
            0 \<le> n \<and> n \<le> int (length (filter (\<lambda>ts. agent_id ts \<noteq> a) tss)) \<and>
            log_probs_list t' = log_probs_list t @ [lp]) \<and>
         (list_all (\<lambda>ts. map_of (dones t) (agent_id ts) = Some True) tss \<longrightarrow>
            add_steps tss lp t = Inr (t\<lparr>log_probs_list := log_probs_list t @ [lp]\<rparr>, 0))"
proof (intro conjI allI impI)
  show same: "add_steps (filter (\<lambda>ts. agent_id ts \<noteq> a) tss) lp t = add_steps tss lp t"
    by (simp add: add_steps_def add_steps_loop_done_agent(1)[OF assms])
  fix t' n
  assume ok: "add_steps tss lp t = Inr (t', n)"
  then obtain t1 where loop: "add_steps_loop tss t 0 = Inr (t1, n)"
    and t': "t' = t1\<lparr>log_probs_list := log_probs_list t1 @ [lp]\<rparr>"
    by (auto simp: add_steps_def split: sum.splits)
  from add_steps_loop_done_agent(2)[OF assms loop] show "untouched a t t'"
    by (simp add: t' untouched_def)
  from add_steps_loop_frame[OF loop] show "0 \<le> n" by simp
  from loop have "add_steps_loop (filter (\<lambda>ts. agent_id ts \<noteq> a) tss) t 0 = Inr (t1, n)"
    by (simp add: add_steps_loop_done_agent(1)[OF assms])
  from add_steps_loop_frame[OF this]
  show "n \<le> int (length (filter (\<lambda>ts. agent_id ts \<noteq> a) tss))" by simp
  from add_steps_loop_frame[OF loop] show "log_probs_list t' = log_probs_list t @ [lp]"
    by (simp add: t')
next
  assume "list_all (\<lambda>ts. map_of (dones t) (agent_id ts) = Some True) tss"
  then show "add_steps tss lp t = Inr (t\<lparr>log_probs_list := log_probs_list t @ [lp]\<rparr>, 0)"
    by (simp add: add_steps_def add_steps_loop_all_done)
qed


subsection \<open>The constructor and the invariants of add_steps\<close>

lemma keys_are_insert:
  "distinct (dict_keys d) \<Longrightarrow> distinct (dict_keys (setitem d k v)) \<and>
     set (dict_keys (setitem d k v)) = insert k (set (dict_keys d))"
  unfolding dict_keys_def setitem_def
  by (auto simp: distinct_update dom_update simp flip: image_set)

lemma fold_init_agent:
  fixes t :: "('aid, 'obs, 'act, 'rew) env_trajectories"
  assumes "distinct (dict_keys (obs_lists t))" "distinct (dict_keys (action_lists t))"
    "distinct (dict_keys (reward_lists t))" "distinct (dict_keys (final_obs t))"
    "distinct (dict_keys (dones t))" "distinct (dict_keys (truncateds t))"
  shows "let t' = fold init_agent ids t in
    agent_ids t' = agent_ids t \<and> log_probs_list t' = log_probs_list t \<and>
    keys_are (obs_lists t') (ids @ dict_keys (obs_lists t)) \<and>
    keys_are (action_lists t') (ids @ dict_keys (action_lists t)) \<and>
    keys_are (reward_lists t') (ids @ dict_keys (reward_lists t)) \<and>
    keys_are (final_obs t') (ids @ dict_keys (final_obs t)) \<and>
    keys_are (dones t') (ids @ dict_keys (dones t)) \<and>
    keys_are (truncateds t') (ids @ dict_keys (truncateds t)) \<and>
    (\<forall>a. map_of (obs_lists t') a = (if a \<in> set ids then Some [] else map_of (obs_lists t) a)) \<and>
    (\<forall>a. map_of (action_lists t') a = (if a \<in> set ids then Some [] else map_of (action_lists t) a)) \<and>
    (\<forall>a. map_of (reward_lists t') a = (if a \<in> set ids then Some [] else map_of (reward_lists t) a)) \<and>
    (\<forall>a. map_of (final_obs t') a = (if a \<in> set ids then Some None else map_of (final_obs t) a)) \<and>
    (\<forall>a. map_of (dones t') a = (if a \<in> set ids then Some False else map_of (dones t) a)) \<and>
    (\<forall>a. map_of (truncateds t') a = (if a \<in> set ids then Some False else map_of (truncateds t) a))"
  using assms
proof (induction ids arbitrary: t)
  case Nil
  then show ?case by (simp add: keys_are_def)
next
  case (Cons a ids)
  define t1 where "t1 = init_agent a t"
  have d: "distinct (dict_keys (obs_lists t1))" "distinct (dict_keys (action_lists t1))"
    "distinct (dict_keys (reward_lists t1))" "distinct (dict_keys (final_obs t1))"
    "distinct (dict_keys (dones t1))" "distinct (dict_keys (truncateds t1))"
    using Cons.prems by (simp_all add: t1_def init_agent_def keys_are_insert)
  have k: "set (dict_keys (obs_lists t1)) = insert a (set (dict_keys (obs_lists t)))"
    "set (dict_keys (action_lists t1)) = insert a (set (dict_keys (action_lists t)))"
    "set (dict_keys (reward_lists t1)) = insert a (set (dict_keys (reward_lists t)))"
    "set (dict_keys (final_obs t1)) = insert a (set (dict_keys (final_obs t)))"
    "set (dict_keys (dones t1)) = insert a (set (dict_keys (dones t)))"
    "set (dict_keys (truncateds t1)) = insert a (set (dict_keys (truncateds t)))"
    using Cons.prems by (simp_all add: t1_def init_agent_def keys_are_insert)
  have m: "agent_ids t1 = agent_ids t" "log_probs_list t1 = log_probs_list t"
    "\<And>x. map_of (obs_lists t1) x = (if x = a then Some [] else map_of (obs_lists t) x)"
    "\<And>x. map_of (action_lists t1) x = (if x = a then Some [] else map_of (action_lists t) x)"
    "\<And>x. map_of (reward_lists t1) x = (if x = a then Some [] else map_of (reward_lists t) x)"
    "\<And>x. map_of (final_obs t1) x = (if x = a then Some None else map_of (final_obs t) x)"
    "\<And>x. map_of (dones t1) x = (if x = a then Some False else map_of (dones t) x)"
    "\<And>x. map_of (truncateds t1) x = (if x = a then Some False else map_of (truncateds t) x)"
    by (simp_all add: t1_def init_agent_def map_of_setitem)
  from Cons.IH[OF d] show ?case
    unfolding Let_def fold_simps t1_def[symmetric]
    by (simp add: keys_are_def k m)
qed

lemma init_props:
  fixes t :: "('aid, 'obs, 'act, 'rew) env_trajectories"
  assumes "t = EnvTrajectories_init ids"
  shows "tracker_wf t \<and> lengths_agree t \<and> agent_ids t = ids \<and> log_probs_list t = []"
proof -
  define t0 :: "('aid, 'obs, 'act, 'rew) env_trajectories" where
    "t0 = \<lparr>agent_ids = ids, obs_lists = [], action_lists = [], reward_lists = [],
        final_obs = [], dones = [], truncateds = [], log_probs_list = []\<rparr>"
  have t: "t = fold init_agent ids t0"
    by (simp add: assms EnvTrajectories_init_def t0_def)
  have "distinct (dict_keys (obs_lists t0))" "distinct (dict_keys (action_lists t0))"
    "distinct (dict_keys (reward_lists t0))" "distinct (dict_keys (final_obs t0))"
    "distinct (dict_keys (dones t0))" "distinct (dict_keys (truncateds t0))"
    by (simp_all add: t0_def dict_keys_def)
  from fold_init_agent[OF this, of ids] show ?thesis
    unfolding Let_def t[symmetric]
    by (simp add: t0_def tracker_wf_def dict_keys_def lengths_agree_def keys_are_def)
qed

lemma add_step_lengths_agree:
  assumes "add_step ts t = Inr t'" and "lengths_agree t"
  shows "lengths_agree t'"
proof -
  from assms(1) obtain ol al rl where g: "map_of (obs_lists t) (agent_id ts) = Some ol"
    "map_of (action_lists t) (agent_id ts) = Some al" "map_of (reward_lists t) (agent_id ts) = Some rl"
    by (auto simp: add_step_def getitem_Inr split: sum.splits)
  with assms(2) have "length ol = length al" "length al = length rl"
    unfolding lengths_agree_def by (metis option.map(2) option.inject)+
  with assms g show ?thesis
    by (auto simp: add_step_def Let_def getitem_def lengths_agree_def map_of_setitem split: if_splits)
qed

lemma add_steps_loop_lengths_agree:
  "add_steps_loop tss t n = Inr (t', n') \<Longrightarrow> lengths_agree t \<Longrightarrow> lengths_agree t'"
proof (induction tss arbitrary: t n)
  case Nil
  then show ?case by simp
next
  case (Cons ts rest)
  then show ?case
    by (auto split: sum.splits if_splits dest: add_step_lengths_agree)
qed

lemma add_steps_invariants:
  assumes "add_steps tss lp t = Inr (t', n)"
  shows "agent_ids t' = agent_ids t" and "log_probs_list t' = log_probs_list t @ [lp]"
    and "tracker_wf t \<Longrightarrow> tracker_wf t'" and "lengths_agree t \<Longrightarrow> lengths_agree t'"
proof -
  from assms obtain t1 where loop: "add_steps_loop tss t 0 = Inr (t1, n)"
    and t': "t' = t1\<lparr>log_probs_list := log_probs_list t1 @ [lp]\<rparr>"
    by (auto simp: add_steps_def split: sum.splits)
  from add_steps_loop_frame[OF loop] have f: "agent_ids t1 = agent_ids t"
    "log_probs_list t1 = log_probs_list t" "tracker_wf t \<longrightarrow> tracker_wf t1"
    by simp_all
  show "agent_ids t' = agent_ids t" "log_probs_list t' = log_probs_list t @ [lp]"
    using f by (simp_all add: t')
  have "tracker_wf t' = tracker_wf t1"
    by (simp add: t' tracker_wf_def)
  then show "tracker_wf t \<Longrightarrow> tracker_wf t'"
    using f(3) by simp
  from add_steps_loop_lengths_agree[OF loop] show "lengths_agree t \<Longrightarrow> lengths_agree t'"
    by (simp add: t' lengths_agree_def)
qed

lemma add_steps_calls_invariants:
  "add_steps_calls calls t = Inr t' \<Longrightarrow>
   agent_ids t' = agent_ids t \<and> log_probs_list t' = log_probs_list t @ map snd calls \<and>
   (tracker_wf t \<longrightarrow> tracker_wf t') \<and> (lengths_agree t \<longrightarrow> lengths_agree t')"
proof (induction calls arbitrary: t)
  case Nil
  then show ?case by simp
next
  case (Cons c rest)
  from Cons.prems obtain t1 n where c: "add_steps (fst c) (snd c) t = Inr (t1, n)"
    and rest: "add_steps_calls rest t1 = Inr t'"
    by (auto split: sum.splits)
  from Cons.IH[OF rest] add_steps_invariants[OF c] show ?case by simp
qed


subsection \<open>get_trajectories\<close>

lemma get_trajectories_loop_ok:
  assumes "tracker_wf t" and "set as \<subseteq> set (agent_ids t)" and "i + length as \<le> w"
  shows "get_trajectories_loop (w, rows) (enumerate i as) t =
     Inr (map (\<lambda>(idx, a).
            \<lparr>traj_agent_id = a, obs_list = the (map_of (obs_lists t) a),
             action_list = the (map_of (action_lists t) a),
             log_probs = map (\<lambda>r. r ! idx) rows,
             reward_list = the (map_of (reward_lists t) a), val_preds = None,
             traj_final_obs = the (map_of (final_obs t) a), final_val_pred = 0,
             traj_truncated = the (map_of (truncateds t) a)\<rparr>)
          (enumerate i as))"
  using assms(2,3)
proof (induction as arbitrary: i)
  case Nil
  then show ?case by simp
next
  case (Cons a as)
  from Cons.prems(1) have a: "a \<in> set (agent_ids t)" by simp
  from assms(1) have k: "keys_are (obs_lists t) (agent_ids t)" "keys_are (action_lists t) (agent_ids t)"
    "keys_are (reward_lists t) (agent_ids t)" "keys_are (final_obs t) (agent_ids t)"
    "keys_are (truncateds t) (agent_ids t)"
    by (simp_all add: tracker_wf_def)
  from k[THEN keys_are_lookup, OF a] obtain ol al rl fo tr where g:
    "map_of (obs_lists t) a = Some ol" "map_of (action_lists t) a = Some al"
    "map_of (reward_lists t) a = Some rl" "map_of (final_obs t) a = Some fo"
    "map_of (truncateds t) a = Some tr"
    by blast
  have "get_trajectories_loop (w, rows) (enumerate (Suc i) as) t = Inr (map (\<lambda>(idx, a).
            \<lparr>traj_agent_id = a, obs_list = the (map_of (obs_lists t) a),
             action_list = the (map_of (action_lists t) a),
             log_probs = map (\<lambda>r. r ! idx) rows,
             reward_list = the (map_of (reward_lists t) a), val_preds = None,
             traj_final_obs = the (map_of (final_obs t) a), final_val_pred = 0,
             traj_truncated = the (map_of (truncateds t) a)\<rparr>)
          (enumerate (Suc i) as))"
    using Cons.prems by (intro Cons.IH) auto
  moreover have "i < w" using Cons.prems(2) by simp
  ultimately show ?case
    using g by (simp add: getitem_def column_def)
qed

lemma torch_stack_ok:
  "rows \<noteq> [] \<Longrightarrow> list_all (\<lambda>r. length r = w) rows \<Longrightarrow> torch_stack rows = Inr (w, rows)"
  by (cases rows) (auto simp: torch_stack_def list_all_iff)

text \<open>
  Claim C2 (row/column alignment). A tracker seeded with the agent ids \<open>ids\<close> and taken
  through the non-empty list \<open>calls\<close> of \<open>add_steps\<close> calls, whose log-prob rows all
  have the width \<open>w\<close> with \<open>length ids \<le> w\<close>, yields one trajectory per agent id, in
  order, and the stacked buffer has one row per call. The log-prob sequence of agent
  \<open>i\<close> is column \<open>i\<close> of every row: its length is the number of calls, whether or
  not the agent was done during them, while the agent's observation, action and reward
  sequences, which have one length, stop growing when the agent is done. So the
  log-prob sequence of an agent that finished before the last call is longer than its
  other sequences.
\<close>

theorem row_column_alignment:
  assumes "add_steps_calls calls (EnvTrajectories_init ids) = Inr t"
    and "calls \<noteq> []" and "list_all (\<lambda>c. length (snd c) = w) calls" and "length ids \<le> w"
  shows "\<exists>trajs. get_trajectories t = Inr trajs \<and>
           torch_stack (log_probs_list t) = Inr (w, map snd calls) \<and>
           length trajs = length ids \<and> map traj_agent_id trajs = ids \<and>
           map log_probs trajs = map (\<lambda>i. map (\<lambda>c. snd c ! i) calls) [0..<length ids] \<and>
           list_all (\<lambda>tr. length (log_probs tr) = length calls \<and>
                         length (obs_list tr) = length (action_list tr) \<and>
                         length (action_list tr) = length (reward_list tr)) trajs"
proof -
  define t0 :: "('a, 'b, 'c, 'd) env_trajectories" where "t0 = EnvTrajectories_init ids"
  from init_props[OF t0_def] add_steps_calls_invariants[of calls t0 t] assms(1)
  have inv: "tracker_wf t" "lengths_agree t" "agent_ids t = ids" "log_probs_list t = map snd calls"
    by (simp_all add: t0_def)
  have stack: "torch_stack (log_probs_list t) = Inr (w, map snd calls)"
    using assms(2,3) by (simp add: inv(4) torch_stack_ok list_all_iff)
  define mk where "mk = (\<lambda>(idx, a).
            \<lparr>traj_agent_id = a, obs_list = the (map_of (obs_lists t) a),
             action_list = the (map_of (action_lists t) a),
             log_probs = map (\<lambda>r. r ! idx) (map snd calls),
             reward_list = the (map_of (reward_lists t) a), val_preds = None,
             traj_final_obs = the (map_of (final_obs t) a), final_val_pred = 0,
             traj_truncated = the (map_of (truncateds t) a)\<rparr>)"
  have res: "get_trajectories t = Inr (map mk (enumerate 0 ids))"
    using get_trajectories_loop_ok[OF inv(1), of ids 0 w "map snd calls"] assms(4)
    by (simp add: get_trajectories_def stack inv(3) mk_def)
  have len: "length (the (map_of (obs_lists t) a)) = length (the (map_of (action_lists t) a)) \<and>
             length (the (map_of (action_lists t) a)) = length (the (map_of (reward_lists t) a))"
    if a: "a \<in> set ids" for a
  proof -
    from inv(1) have k: "keys_are (obs_lists t) (agent_ids t)" "keys_are (action_lists t) (agent_ids t)"
      "keys_are (reward_lists t) (agent_ids t)"
      by (simp_all add: tracker_wf_def)
    from k[THEN keys_are_lookup, of a] a obtain ol al rl where g:
      "map_of (obs_lists t) a = Some ol" "map_of (action_lists t) a = Some al"
      "map_of (reward_lists t) a = Some rl"
      unfolding inv(3) by blast
    with inv(2) show ?thesis
      unfolding lengths_agree_def by (metis option.map(2) option.inject option.sel)
  qed
  have "map traj_agent_id (map mk (enumerate 0 ids)) = map snd (enumerate 0 ids)"
    by (simp add: mk_def split_def comp_def)
  then have ids: "map traj_agent_id (map mk (enumerate 0 ids)) = ids"
    by simp
  have "map log_probs (map mk (enumerate 0 ids)) =
        map (\<lambda>p. map (\<lambda>c. snd c ! fst p) calls) (enumerate 0 ids)"
    by (simp add: mk_def split_def comp_def)
  also have "\<dots> = map (\<lambda>i. map (\<lambda>c. snd c ! i) calls) (map fst (enumerate 0 ids))"
    unfolding map_map by (simp add: comp_def)
  finally have cols: "map log_probs (map mk (enumerate 0 ids)) =
        map (\<lambda>i. map (\<lambda>c. snd c ! i) calls) [0..<length ids]"
    by simp
  note ids cols
  moreover have "list_all (\<lambda>tr. length (log_probs tr) = length calls \<and>
                         length (obs_list tr) = length (action_list tr) \<and>
                         length (action_list tr) = length (reward_list tr)) (map mk (enumerate 0 ids))"
    using len by (auto simp: list_all_iff mk_def enumerate_eq_zip dest: set_zip_rightD)
  ultimately show ?thesis
    using res stack by simp
qed


subsection \<open>The tracker on the example calls\<close>

lemmas ex_defs = ex_tracker_def ex_first_steps_def ex_late_steps_def ex_tracker_after_def
  ex_calls_def ex_traj_A_def ex_traj_B_def

lemmas tracker_eval = getitem_def setitem_def add_steps_def add_step_def Let_def
  EnvTrajectories_init_def init_agent_def finalize_def get_trajectories_def torch_stack_def
  column_def dict_values_def py_all_def

lemma ex_first_call:
  "add_steps ex_first_steps [-1, -2] (EnvTrajectories_init [''A'', ''B'']) = Inr (ex_tracker, 2)"
  by (simp add: ex_defs tracker_eval)

lemma ex_late_call: "add_steps ex_late_steps [-3, -4] ex_tracker = Inr (ex_tracker_after, 1)"
  by (simp add: ex_defs tracker_eval)

lemma ex_wf: "tracker_wf ex_tracker"
  by (simp add: ex_tracker_def tracker_wf_def keys_are_def dict_keys_def) 

lemma ex_get: "get_trajectories ex_tracker_after = Inr [ex_traj_A, ex_traj_B]"
  by (simp add: ex_defs tracker_eval enumerate_eq_zip upt_rec)

theorem finalize_idempotent_witness:
  "tracker_wf ex_tracker \<and>
   finalize ex_tracker =
     Inr (ex_tracker\<lparr>dones := [(''A'', True), (''B'', True)],
                     truncateds := [(''A'', False), (''B'', True)]\<rparr>) \<and>
   finalize (ex_tracker\<lparr>dones := [(''A'', True), (''B'', True)],
                        truncateds := [(''A'', False), (''B'', True)]\<rparr>) =
     Inr (ex_tracker\<lparr>dones := [(''A'', True), (''B'', True)],
                     truncateds := [(''A'', False), (''B'', True)]\<rparr>)"
proof -
  have once: "finalize ex_tracker =
     Inr (ex_tracker\<lparr>dones := [(''A'', True), (''B'', True)],
                     truncateds := [(''A'', False), (''B'', True)]\<rparr>)"
    by (simp add: ex_defs tracker_eval)
  from finalize_idempotent[OF ex_wf] once ex_wf show ?thesis
    by auto
qed

theorem drop_after_done_witness:
  "map_of (dones ex_tracker) ''A'' = Some True \<and>
   add_steps ex_late_steps [-3, -4] ex_tracker = Inr (ex_tracker_after, 1) \<and>
   add_steps (filter (\<lambda>ts. agent_id ts \<noteq> ''A'') ex_late_steps) [-3, -4] ex_tracker =
     Inr (ex_tracker_after, 1) \<and>
   untouched ''A'' ex_tracker ex_tracker_after \<and>
   log_probs_list ex_tracker_after = log_probs_list ex_tracker @ [[-3, -4]] \<and>
   map_of (dones ex_tracker_after) ''A'' = Some True \<and>
   list_all (\<lambda>ts. map_of (dones ex_tracker_after) (agent_id ts) = Some True) ex_late_steps \<and>
   add_steps ex_late_steps [-5, -6] ex_tracker_after =
     Inr (ex_tracker_after\<lparr>log_probs_list := log_probs_list ex_tracker_after @ [[-5, -6]]\<rparr>, 0)"
proof -
  have d: "map_of (dones ex_tracker) ''A'' = Some True"
    by (simp add: ex_tracker_def)
  have d': "map_of (dones ex_tracker_after) ''A'' = Some True"
    by (simp add: ex_tracker_after_def)
  have all: "list_all (\<lambda>ts. map_of (dones ex_tracker_after) (agent_id ts) = Some True) ex_late_steps"
    by (simp add: ex_tracker_after_def ex_late_steps_def)
  have first: "add_steps (filter (\<lambda>ts. agent_id ts \<noteq> ''A'') ex_late_steps) [-3, -4] ex_tracker =
     Inr (ex_tracker_after, 1) \<and>
   untouched ''A'' ex_tracker ex_tracker_after \<and>
   log_probs_list ex_tracker_after = log_probs_list ex_tracker @ [[-3, -4]]"
    using drop_after_done[OF d, of ex_late_steps "[-3, -4]"] ex_late_call by simp
  have second: "add_steps ex_late_steps [-5, -6] ex_tracker_after =
     Inr (ex_tracker_after\<lparr>log_probs_list := log_probs_list ex_tracker_after @ [[-5, -6]]\<rparr>, 0)"
    using drop_after_done[OF d', of ex_late_steps "[-5, -6]"] all by blast
  show ?thesis
    using d d' all first second ex_late_call by blast
qed

theorem row_column_alignment_witness:
  "add_steps_calls ex_calls (EnvTrajectories_init [''A'', ''B'']) = Inr ex_tracker_after \<and>
   ex_calls \<noteq> [] \<and> list_all (\<lambda>c. length (snd c) = 2) ex_calls \<and>
   length [''A'', ''B''] \<le> (2::nat) \<and>
   get_trajectories ex_tracker_after = Inr [ex_traj_A, ex_traj_B] \<and>
   torch_stack (log_probs_list ex_tracker_after) = Inr (2, map snd ex_calls) \<and>
   map log_probs [ex_traj_A, ex_traj_B] = [[-1, -3], [-2, -4]]"
proof -
  have run: "add_steps_calls ex_calls (EnvTrajectories_init [''A'', ''B'']) = Inr ex_tracker_after"
    by (simp add: ex_calls_def ex_first_call ex_late_call)
  have rows: "ex_calls \<noteq> []" "list_all (\<lambda>c. length (snd c) = 2) ex_calls"
    by (simp_all add: ex_calls_def)
  have k: "length [''A'', ''B''] \<le> (2::nat)"
    by simp
  from row_column_alignment[OF run rows k] run rows ex_get show ?thesis
    by (simp add: ex_traj_A_def ex_traj_B_def)
qed

text \<open>
  The divergence on the examples: agent \<open>A\<close> terminates in the first of two calls, so
  it was not yet done during one call and has one observation, but its log-prob
  sequence has two entries; in the end-to-end scenario of the specification \<open>A\<close> has
  two observations and three log-probs.
\<close>

lemma log_prob_column_uncut:
  "tracker_trajectories [''A'', ''B''] ex_calls = Inr [ex_traj_A, ex_traj_B] \<and>
   calls_while_not_done ''A'' ex_calls (EnvTrajectories_init [''A'', ''B'']) = 1 \<and>
   length (obs_list ex_traj_A) = 1 \<and>
   length (log_probs ex_traj_A) = 2"
  using ex_first_call ex_late_call ex_get
  by (simp add: tracker_trajectories_def ex_calls_def)
     (simp add: ex_defs tracker_eval)

lemma log_prob_column_scenario:
  "tracker_trajectories [''A'', ''B''] ex_scenario_calls = Inr ex_scenario_trajs \<and>
   calls_while_not_done ''A'' ex_scenario_calls (EnvTrajectories_init [''A'', ''B'']) = 2 \<and>
   map (\<lambda>tr. length (obs_list tr)) ex_scenario_trajs = [2, 3] \<and>
   map (\<lambda>tr. length (log_probs tr)) ex_scenario_trajs = [3, 3]"
  by (simp add: tracker_trajectories_def ex_scenario_calls_def ex_scenario_trajs_def
      tracker_eval enumerate_eq_zip upt_rec)

section \<open>Properties of the controller\<close>

subsection \<open>Value backfill\<close>

lemma critic_input_loop_eq:
  "critic_input_loop trs start rs ids os =
     (rs @ ranges_from start trs, ids @ request_agent_ids trs, os @ request_obs trs)"
  by (induction trs arbitrary: start rs ids os)
     (simp_all add: request_agent_ids_def request_obs_def Let_def)

lemma py_slice_nat:
  "a \<le> b \<Longrightarrow> b \<le> length xs \<Longrightarrow> py_slice xs (int a) (int b) = take (b - a) (drop a xs)"
  by (simp add: py_slice_def slice_bound_def Let_def min_def nat_diff_distrib' del: of_nat_diff)

lemma py_index_nat: "i < length xs \<Longrightarrow> py_index xs (int i) = Inr (xs ! i)"
  by (simp add: py_index_def)

lemma assign_val_preds_loop_eq:
  "start + sum_list (map (\<lambda>tr. length (obs_list tr) + 1) trs) \<le> length vp \<Longrightarrow>
   assign_val_preds_loop (ranges_from (int start) trs) trs vp = Inr (backfilled start trs vp)"
proof (induction trs arbitrary: start)
  case Nil
  then show ?case by simp
next
  case (Cons tr trs)
  let ?n = "length (obs_list tr)"
  define s' where "s' = start + ?n + 1"
  have s'_int: "int start + int (?n + 1) = int s'"
    by (simp add: s'_def)
  have r: "ranges_from (int start) (tr # trs) = (int start, int s') # ranges_from (int s') trs"
    unfolding ranges_from.simps s'_int by (rule refl)
  have idx: "py_index vp (int s' - 1) = Inr (vp ! (start + ?n))"
    using Cons.prems py_index_nat[of "start + ?n" vp] by (simp add: s'_def)
  have sl: "py_slice vp (int start) (int s' - 1) = take ?n (drop start vp)"
    using Cons.prems py_slice_nat[of start "start + ?n" vp] by (simp add: s'_def)
  have rest: "assign_val_preds_loop (ranges_from (int s') trs) trs vp = Inr (backfilled s' trs vp)"
    using Cons.prems Cons.IH[of s'] by (simp add: s'_def)
  show ?case
    unfolding r by (simp add: idx sl rest, simp add: s'_def)
qed

lemma update_value_predictions_eq:
  assumes "critic (learner c) (request_agent_ids (current_trajectories c))
             (request_obs (current_trajectories c)) = Inr vp"
    and "length vp = length (request_obs (current_trajectories c))"
  shows "update_value_predictions c =
           Inr (c\<lparr>current_trajectories := backfilled 0 (current_trajectories c) vp\<rparr>)"
proof -
  have "length (request_obs (current_trajectories c)) =
        sum_list (map (\<lambda>tr. length (obs_list tr) + 1) (current_trajectories c))"
    by (simp add: request_obs_def length_concat comp_def)
  with assms(2) have "0 + sum_list (map (\<lambda>tr. length (obs_list tr) + 1) (current_trajectories c)) \<le> length vp"
    by simp
  from assign_val_preds_loop_eq[OF this] show ?thesis
    using assms(1) by (simp add: update_value_predictions_def critic_input_loop_eq)
qed

lemma backfilled_length: "length (backfilled start trs vp) = length trs"
  by (induction trs arbitrary: start) simp_all

lemma backfilled_nth:
  "i < length trs \<Longrightarrow>
   backfilled start trs vp ! i =
     (trs ! i)\<lparr>val_preds := Some (take (length (obs_list (trs ! i))) (drop (start + traj_start trs i) vp)),
              final_val_pred := vp ! (start + traj_start trs i + length (obs_list (trs ! i)))\<rparr>"
proof (induction trs arbitrary: start i)
  case Nil
  then show ?case by simp
next
  case (Cons tr trs)
  show ?case
  proof (cases i)
    case 0
    then show ?thesis by (simp add: traj_start_def)
  next
    case (Suc j)
    with Cons.prems have "j < length trs" by simp
    from Cons.IH[OF this, of "start + length (obs_list tr) + 1"] Suc show ?thesis
      by (simp add: traj_start_def algebra_simps)
  qed
qed

lemma ranges_from_eq:
  "ranges_from (int start) trs =
     map (\<lambda>i. (int (start + traj_start trs i), int (start + traj_start trs (Suc i)))) [0..<length trs]"
proof (induction trs arbitrary: start)
  case Nil
  then show ?case by simp
next
  case (Cons tr trs)
  have eq: "int start + int (length (obs_list tr) + 1) = int (start + length (obs_list tr) + 1)" by simp
  have "[0..<length (tr # trs)] = 0 # map Suc [0..<length trs]"
    by (simp add: upt_conv_Cons map_Suc_upt del: upt_Suc)
  then show ?case
    unfolding ranges_from.simps eq Cons.IH
    by (simp add: traj_start_def comp_def algebra_simps del: upt_Suc)
qed

lemma traj_start_Suc:
  "i < length trs \<Longrightarrow> traj_start trs (Suc i) = traj_start trs i + length (obs_list (trs ! i)) + 1"
  by (simp add: traj_start_def take_Suc_conv_app_nth)

lemma traj_start_le:
  "i \<le> length trs \<Longrightarrow> traj_start trs i \<le> length (request_obs trs)"
proof -
  assume "i \<le> length trs"
  have "length (request_obs trs) = sum_list (map (\<lambda>tr. length (obs_list tr) + 1) (take i trs @ drop i trs))"
    by (simp add: request_obs_def length_concat comp_def)
  also have "\<dots> = traj_start trs i + sum_list (map (\<lambda>tr. length (obs_list tr) + 1) (drop i trs))"
    unfolding map_append sum_list_append traj_start_def by simp
  finally show ?thesis by simp
qed

lemma request_obs_block:
  "i < length trs \<Longrightarrow>
   take (length (obs_list (trs ! i)) + 1) (drop (traj_start trs i) (request_obs trs)) =
     map Some (obs_list (trs ! i)) @ [traj_final_obs (trs ! i)]"
proof (induction trs arbitrary: i)
  case Nil
  then show ?case by simp
next
  case (Cons tr trs)
  show ?case
  proof (cases i)
    case 0
    then show ?thesis by (simp add: traj_start_def request_obs_def)
  next
    case (Suc j)
    with Cons.prems have j: "j < length trs" by simp
    have "traj_start (tr # trs) (Suc j) = (length (obs_list tr) + 1) + traj_start trs j"
      by (simp add: traj_start_def)
    moreover have "request_obs (tr # trs) = (map Some (obs_list tr) @ [traj_final_obs tr]) @ request_obs trs"
      by (simp add: request_obs_def)
    ultimately have "drop (traj_start (tr # trs) (Suc j)) (request_obs (tr # trs)) =
                     drop (traj_start trs j) (request_obs trs)"
      by simp
    with Cons.IH[OF j] Suc show ?thesis by simp
  qed
qed

text \<open>
  Claim C4 (value backfill offset rule). The first loop of \<open>_update_value_predictions\<close>
  builds the flattened request \<open>request_agent_ids\<close>, \<open>request_obs\<close>: per trajectory,
  in order, one entry per observation and one for \<open>final_obs\<close>; trajectory \<open>i\<close> owns
  the range from \<open>traj_start trs i\<close> to \<open>traj_start trs (Suc i)\<close>, which starts where the
  previous one stops. When the critic answers that request with one value per entry,
  the call returns, and trajectory \<open>i\<close> has \<open>val_preds = result[start : stop - 1]\<close>, as
  long as its observation sequence, and \<open>final_val_pred = result[stop - 1]\<close>.
\<close>

theorem value_backfill_offsets:
  assumes "current_trajectories c = trs"
    and "critic (learner c) (request_agent_ids trs) (request_obs trs) = Inr vp"
    and "length vp = length (request_obs trs)"
  shows "critic_input_loop trs 0 [] [] [] =
           (map (\<lambda>i. (int (traj_start trs i), int (traj_start trs (Suc i)))) [0..<length trs],
            request_agent_ids trs, request_obs trs) \<and>
         (\<exists>trs'. update_value_predictions c = Inr (c\<lparr>current_trajectories := trs'\<rparr>) \<and>
            length trs' = length trs \<and>
            (\<forall>i<length trs.
               traj_start trs (Suc i) = traj_start trs i + length (obs_list (trs ! i)) + 1 \<and>
               take (length (obs_list (trs ! i)) + 1) (drop (traj_start trs i) (request_obs trs)) =
                 map Some (obs_list (trs ! i)) @ [traj_final_obs (trs ! i)] \<and>
               trs' ! i =
                 (trs ! i)\<lparr>val_preds :=
                             Some (py_slice vp (int (traj_start trs i)) (int (traj_start trs (Suc i)) - 1)),
                           final_val_pred := vp ! (traj_start trs (Suc i) - 1)\<rparr> \<and>
               py_index vp (int (traj_start trs (Suc i)) - 1) = Inr (vp ! (traj_start trs (Suc i) - 1)) \<and>
               length (py_slice vp (int (traj_start trs i)) (int (traj_start trs (Suc i)) - 1)) =
                 length (obs_list (trs ! i))))"
proof (intro conjI)
  show "critic_input_loop trs 0 [] [] [] =
           (map (\<lambda>i. (int (traj_start trs i), int (traj_start trs (Suc i)))) [0..<length trs],
            request_agent_ids trs, request_obs trs)"
    using ranges_from_eq[of 0 trs] by (simp add: critic_input_loop_eq)
  have upd: "update_value_predictions c = Inr (c\<lparr>current_trajectories := backfilled 0 trs vp\<rparr>)"
    using update_value_predictions_eq[of c vp] assms by simp
  have each: "traj_start trs (Suc i) = traj_start trs i + length (obs_list (trs ! i)) + 1 \<and>
               take (length (obs_list (trs ! i)) + 1) (drop (traj_start trs i) (request_obs trs)) =
                 map Some (obs_list (trs ! i)) @ [traj_final_obs (trs ! i)] \<and>
               backfilled 0 trs vp ! i =
                 (trs ! i)\<lparr>val_preds :=
                             Some (py_slice vp (int (traj_start trs i)) (int (traj_start trs (Suc i)) - 1)),
                           final_val_pred := vp ! (traj_start trs (Suc i) - 1)\<rparr> \<and>
               py_index vp (int (traj_start trs (Suc i)) - 1) = Inr (vp ! (traj_start trs (Suc i) - 1)) \<and>
               length (py_slice vp (int (traj_start trs i)) (int (traj_start trs (Suc i)) - 1)) =
                 length (obs_list (trs ! i))"
    if i: "i < length trs" for i
  proof -
    let ?s = "traj_start trs i" and ?n = "length (obs_list (trs ! i))"
    have suc: "traj_start trs (Suc i) = ?s + ?n + 1"
      using i by (rule traj_start_Suc)
    have "traj_start trs (Suc i) \<le> length vp"
      using i traj_start_le[of "Suc i" trs] assms(3) by simp
    then have le: "?s + ?n < length vp"
      using suc by simp
    have stop: "int (traj_start trs (Suc i)) - 1 = int (?s + ?n)"
      using suc by simp
    have sl: "py_slice vp (int ?s) (int (?s + ?n)) = take ?n (drop ?s vp)"
      using le py_slice_nat[of ?s "?s + ?n" vp] by simp
    have idx: "py_index vp (int (?s + ?n)) = Inr (vp ! (?s + ?n))"
      using le by (rule py_index_nat)
    have "length (take ?n (drop ?s vp)) = ?n"
      using le by simp
    then show ?thesis
      unfolding stop sl idx
      using backfilled_nth[OF i, of 0 vp] request_obs_block[OF i] suc by simp
  qed
  show "\<exists>trs'. update_value_predictions c = Inr (c\<lparr>current_trajectories := trs'\<rparr>) \<and>
            length trs' = length trs \<and>
            (\<forall>i<length trs.
               traj_start trs (Suc i) = traj_start trs i + length (obs_list (trs ! i)) + 1 \<and>
               take (length (obs_list (trs ! i)) + 1) (drop (traj_start trs i) (request_obs trs)) =
                 map Some (obs_list (trs ! i)) @ [traj_final_obs (trs ! i)] \<and>
               trs' ! i =
                 (trs ! i)\<lparr>val_preds :=
                             Some (py_slice vp (int (traj_start trs i)) (int (traj_start trs (Suc i)) - 1)),
                           final_val_pred := vp ! (traj_start trs (Suc i) - 1)\<rparr> \<and>
               py_index vp (int (traj_start trs (Suc i)) - 1) = Inr (vp ! (traj_start trs (Suc i) - 1)) \<and>
               length (py_slice vp (int (traj_start trs i)) (int (traj_start trs (Suc i)) - 1)) =
                 length (obs_list (trs ! i)))"
    using upd each backfilled_length[of 0 trs vp] by blast
qed

lemma take_drop_nth:
  "s + n \<le> length xs \<Longrightarrow> take n (drop s xs) = map ((!) xs) [s..<s + n]"
  by (rule nth_equalityI) auto

lemma ex_request:
  "request_agent_ids ex_trajs =
     [''A'', ''A'', ''A'', ''A'', ''B'', ''B'', ''C'', ''C'', ''C'', ''C'', ''C'', ''C'']"
  "request_obs ex_trajs =
     [Some 1, Some 2, Some 3, Some 4, Some 5, Some 6,
      Some 7, Some 8, Some 9, Some 10, Some 11, Some 12]"
  by (simp_all add: request_agent_ids_def request_obs_def ex_trajs_def ex_traj_def
      numeral_eq_Suc)

lemma ex_critic_answer:
  "critic (learner (ex_controller\<lparr>current_trajectories := ex_trajs\<rparr>))
     (request_agent_ids ex_trajs) (request_obs ex_trajs) =
   Inr [0, 1, 2, 3, 4, 5, 6, 7, 8, 9, 10, 11]"
  unfolding ex_request
  by (simp add: ex_controller_def PPOAgentController_init_def ex_learner_def ex_critic_def upt_rec)

lemma ex_update:
  "update_value_predictions (ex_controller\<lparr>current_trajectories := ex_trajs\<rparr>) =
     Inr (ex_controller\<lparr>current_trajectories := ex_backfilled\<rparr>)"
  using update_value_predictions_eq[of "ex_controller\<lparr>current_trajectories := ex_trajs\<rparr>"
      "[0, 1, 2, 3, 4, 5, 6, 7, 8, 9, 10, 11]"] ex_critic_answer
  by (simp add: ex_request(2)) (simp add: ex_trajs_def ex_backfilled_def ex_traj_def)

theorem value_backfill_offsets_witness:
  "current_trajectories (ex_controller\<lparr>current_trajectories := ex_trajs\<rparr>) = ex_trajs \<and>
   critic (learner (ex_controller\<lparr>current_trajectories := ex_trajs\<rparr>))
     (request_agent_ids ex_trajs) (request_obs ex_trajs) =
     Inr [0, 1, 2, 3, 4, 5, 6, 7, 8, 9, 10, 11] \<and>
   length [0, 1, 2, 3, 4, 5, 6, 7, 8, 9, 10, 11 :: real] = length (request_obs ex_trajs) \<and>
   critic_input_loop ex_trajs 0 [] [] [] =
     (map (\<lambda>i. (int (traj_start ex_trajs i), int (traj_start ex_trajs (Suc i)))) [0..<length ex_trajs],
      request_agent_ids ex_trajs, request_obs ex_trajs) \<and>
   map (traj_start ex_trajs) [0, 1, 2, 3] = [0, 4, 6, 12] \<and>
   update_value_predictions (ex_controller\<lparr>current_trajectories := ex_trajs\<rparr>) =
     Inr (ex_controller\<lparr>current_trajectories := ex_backfilled\<rparr>)"
proof -
  have a: "current_trajectories (ex_controller\<lparr>current_trajectories := ex_trajs\<rparr>) = ex_trajs"
    by simp
  have l: "length [0, 1, 2, 3, 4, 5, 6, 7, 8, 9, 10, 11 :: real] = length (request_obs ex_trajs)"
    by (simp add: ex_request)
  have s: "map (traj_start ex_trajs) [0, 1, 2, 3] = [0, 4, 6, 12]"
    by (simp add: traj_start_def ex_trajs_def ex_traj_def numeral_eq_Suc)
  from value_backfill_offsets[OF a ex_critic_answer l] a ex_critic_answer l s ex_update
  show ?thesis
    by simp
qed

text \<open>
  Claim C5 (value backfill example), as amended. For three trajectories with 3, 1 and 5
  observations the request has 4 + 2 + 6 = 12 entries and the ranges are (0, 4), (4, 6)
  and (6, 12); trajectory 2 receives \<open>val_preds\<close> from the offsets 6 to 10 (length 5)
  and \<open>final_val_pred\<close> from offset 11.
\<close>

theorem value_backfill_example:
  assumes "current_trajectories c = [t0, t1, t2]"
    and "length (obs_list t0) = 3" and "length (obs_list t1) = 1" and "length (obs_list t2) = 5"
    and "critic (learner c) (request_agent_ids [t0, t1, t2]) (request_obs [t0, t1, t2]) = Inr vp"
    and "length vp = 12"
  shows "length (request_agent_ids [t0, t1, t2]) = 12 \<and> length (request_obs [t0, t1, t2]) = 12 \<and>
         critic_input_loop [t0, t1, t2] 0 [] [] [] =
           ([(0, 4), (4, 6), (6, 12)], request_agent_ids [t0, t1, t2], request_obs [t0, t1, t2]) \<and>
         update_value_predictions c =
           Inr (c\<lparr>current_trajectories :=
                    [t0\<lparr>val_preds := Some (py_slice vp 0 3), final_val_pred := vp ! 3\<rparr>,
                     t1\<lparr>val_preds := Some (py_slice vp 4 5), final_val_pred := vp ! 5\<rparr>,
                     t2\<lparr>val_preds := Some (py_slice vp 6 11), final_val_pred := vp ! 11\<rparr>]\<rparr>) \<and>
         py_slice vp 6 11 = [vp ! 6, vp ! 7, vp ! 8, vp ! 9, vp ! 10]"
proof -
  have len: "length (request_agent_ids [t0, t1, t2]) = 12" "length (request_obs [t0, t1, t2]) = 12"
    using assms(2-4) by (simp_all add: request_agent_ids_def request_obs_def)
  have ranges: "critic_input_loop [t0, t1, t2] 0 [] [] [] =
           ([(0, 4), (4, 6), (6, 12)], request_agent_ids [t0, t1, t2], request_obs [t0, t1, t2])"
    using assms(2-4) by (simp add: critic_input_loop_eq)
  have sl: "py_slice vp 0 3 = take 3 vp" "py_slice vp 4 5 = take 1 (drop 4 vp)"
    "py_slice vp 6 11 = take 5 (drop 6 vp)"
    using assms(6) py_slice_nat[of 0 3 vp] py_slice_nat[of 4 5 vp] py_slice_nat[of 6 11 vp]
    by simp_all
  have upd: "update_value_predictions c =
           Inr (c\<lparr>current_trajectories := backfilled 0 [t0, t1, t2] vp\<rparr>)"
    using update_value_predictions_eq[of c vp] assms(1,5,6) len(2) by simp
  have "take 5 (drop 6 vp) = map ((!) vp) [6..<6 + 5]"
    using assms(6) by (intro take_drop_nth) simp
  also have "\<dots> = [vp ! 6, vp ! 7, vp ! 8, vp ! 9, vp ! 10]"
    by (simp add: upt_rec)
  finally have vals: "py_slice vp 6 11 = [vp ! 6, vp ! 7, vp ! 8, vp ! 9, vp ! 10]"
    using sl(3) by simp
  show ?thesis
    using len ranges vals upd unfolding sl by (simp add: assms(2-4))
qed

theorem value_backfill_example_witness:
  "current_trajectories (ex_controller\<lparr>current_trajectories := ex_trajs\<rparr>) = ex_trajs \<and>
   map (\<lambda>tr. length (obs_list tr)) ex_trajs = [3, 1, 5] \<and>
   critic (learner (ex_controller\<lparr>current_trajectories := ex_trajs\<rparr>))
     (request_agent_ids ex_trajs) (request_obs ex_trajs) =
     Inr [0, 1, 2, 3, 4, 5, 6, 7, 8, 9, 10, 11] \<and>
   length (request_obs ex_trajs) = 12 \<and>
   update_value_predictions (ex_controller\<lparr>current_trajectories := ex_trajs\<rparr>) =
     Inr (ex_controller\<lparr>current_trajectories := ex_backfilled\<rparr>)"
proof -
  let ?c = "ex_controller\<lparr>current_trajectories := ex_trajs\<rparr>"
  let ?t0 = "ex_traj ''A'' [1, 2, 3] 4" and ?t1 = "ex_traj ''B'' [5] 6"
    and ?t2 = "ex_traj ''C'' [7, 8, 9, 10, 11] 12"
  have a: "current_trajectories ?c = [?t0, ?t1, ?t2]"
    by (simp add: ex_trajs_def)
  have n: "length (obs_list ?t0) = 3" "length (obs_list ?t1) = 1" "length (obs_list ?t2) = 5"
    by (simp_all add: ex_traj_def)
  have cr: "critic (learner ?c) (request_agent_ids [?t0, ?t1, ?t2]) (request_obs [?t0, ?t1, ?t2]) =
            Inr [0, 1, 2, 3, 4, 5, 6, 7, 8, 9, 10, 11]"
    using ex_critic_answer by (simp add: ex_trajs_def)
  have l: "length [0, 1, 2, 3, 4, 5, 6, 7, 8, 9, 10, 11 :: real] = 12"
    by simp
  from value_backfill_example[OF a n cr l] a n cr show ?thesis
    by (simp add: ex_trajs_def ex_backfilled_def py_slice_def slice_bound_def)
qed

text \<open>
  Claim C5 as stated fails: with a critic that returns each entry's offset, trajectory 2
  holds the values 6 to 10 and the final value 11, not the offsets 4 to 8 and 8.
\<close>

theorem value_backfill_example_counterexample:
  "map (\<lambda>tr. length (obs_list tr)) ex_trajs = [3, 1, 5] \<and>
   update_value_predictions (ex_controller\<lparr>current_trajectories := ex_trajs\<rparr>) =
     Inr (ex_controller\<lparr>current_trajectories := ex_backfilled\<rparr>) \<and>
   val_preds (ex_backfilled ! 2) = Some [6, 7, 8, 9, 10] \<and>
   val_preds (ex_backfilled ! 2) \<noteq> Some [4, 5, 6, 7, 8] \<and>
   final_val_pred (ex_backfilled ! 2) = 11 \<and>
   final_val_pred (ex_backfilled ! 2) \<noteq> 8"
  using ex_update by (simp add: ex_trajs_def ex_backfilled_def ex_traj_def)

subsection \<open>The reset/step decision\<close>

lemma get_trajectories_total:
  assumes "tracker_wf t" and "log_rows_ok t"
  shows "\<exists>trajs. get_trajectories t = Inr trajs \<and> map traj_agent_id trajs = agent_ids t"
proof -
  from assms(2) obtain r rs where rows: "log_probs_list t = r # rs"
    and w: "length (agent_ids t) \<le> length r" and same: "list_all (\<lambda>r'. length r' = length r) rs"
    by (auto simp: log_rows_ok_def split: list.splits)
  have stack: "torch_stack (log_probs_list t) = Inr (length r, r # rs)"
    using same by (simp add: rows torch_stack_def)
  have "map traj_agent_id (map (\<lambda>(idx, a).
            \<lparr>traj_agent_id = a, obs_list = the (map_of (obs_lists t) a),
             action_list = the (map_of (action_lists t) a),
             log_probs = map (\<lambda>r. r ! idx) (r # rs),
             reward_list = the (map_of (reward_lists t) a), val_preds = None,
             traj_final_obs = the (map_of (final_obs t) a), final_val_pred = 0,
             traj_truncated = the (map_of (truncateds t) a)\<rparr>)
          (enumerate 0 (agent_ids t))) = map snd (enumerate 0 (agent_ids t))"
    by (simp add: split_def comp_def)
  then show ?thesis
    using get_trajectories_loop_ok[OF assms(1), of "agent_ids t" 0 "length r" "r # rs"] w
    by (simp add: get_trajectories_def stack)
qed

lemma choose_env_action_eq:
  assumes "\<forall>t. map_of (current_env_trajectories c) env_id = Some t \<and> py_all (dict_values (dones t))
             \<longrightarrow> (\<exists>trs. get_trajectories t = Inr trs)"
  shows "choose_env_action env_id c =
     Inr (env_decision c env_id,
          if env_decision c env_id = RESET_RESPONSE
          then c\<lparr>current_env_trajectories := dict_pop (current_env_trajectories c) env_id,
                 current_trajectories := current_trajectories c @ tracker_output c env_id\<rparr>
          else c)"
  using assms
  by (auto simp: choose_env_action_def env_decision_def tracker_output_def split: option.splits)

lemma update_fresh: "k \<notin> fst ` set al \<Longrightarrow> AList.update k v al = al @ [(k, v)]"
  by (induction al) auto

lemma fold_setitem_fresh:
  "distinct ids \<Longrightarrow> set ids \<inter> fst ` set resp = {} \<Longrightarrow>
   fold (\<lambda>i r. setitem r i (f i)) ids resp = resp @ map (\<lambda>i. (i, f i)) ids"
proof (induction ids arbitrary: resp)
  case Nil
  then show ?case by simp
next
  case (Cons i ids)
  have fresh: "i \<notin> fst ` set resp" using Cons.prems(2) by auto
  have "set ids \<inter> fst ` set (resp @ [(i, f i)]) = {}"
    using Cons.prems by auto
  with Cons.IH[of "resp @ [(i, f i)]"] Cons.prems(1) show ?case
    by (simp add: setitem_def update_fresh[OF fresh])
qed

lemma choose_env_actions_loop_eq:
  assumes "distinct ids"
    and "\<forall>i\<in>set ids. \<forall>t. map_of (current_env_trajectories c) i = Some t \<and> py_all (dict_values (dones t))
             \<longrightarrow> (\<exists>trs. get_trajectories t = Inr trs)"
  shows "choose_env_actions_loop ids resp c =
     Inr (fold (\<lambda>i r. setitem r i (env_decision c i)) ids resp,
          c\<lparr>current_env_trajectories :=
               filter (\<lambda>entry. fst entry \<notin> set (reset_ids c ids)) (current_env_trajectories c),
            current_trajectories :=
               current_trajectories c @ concat (map (tracker_output c) (reset_ids c ids))\<rparr>)"
  using assms
proof (induction ids arbitrary: resp c)
  case Nil
  then show ?case by (simp add: reset_ids_def)
next
  case (Cons i ids)
  define c1 where "c1 = (if env_decision c i = RESET_RESPONSE
          then c\<lparr>current_env_trajectories := dict_pop (current_env_trajectories c) i,
                 current_trajectories := current_trajectories c @ tracker_output c i\<rparr>
          else c)"
  have step: "choose_env_action i c = Inr (env_decision c i, c1)"
    unfolding c1_def using Cons.prems(2) by (intro choose_env_action_eq) simp
  have same: "map_of (current_env_trajectories c1) j = map_of (current_env_trajectories c) j"
    if "j \<in> set ids" for j
  proof -
    from that Cons.prems(1) have "j \<noteq> i" by auto
    then show ?thesis by (simp add: c1_def dict_pop_def delete_conv')
  qed
  then have dec: "env_decision c1 j = env_decision c j" and out: "tracker_output c1 j = tracker_output c j"
    if "j \<in> set ids" for j
    using that by (simp_all add: env_decision_def tracker_output_def)
  have r: "reset_ids c1 ids = reset_ids c ids"
    unfolding reset_ids_def using dec by (intro filter_cong) auto
  have o: "map (tracker_output c1) (reset_ids c ids) = map (tracker_output c) (reset_ids c ids)"
    using out by (intro map_cong) (auto simp: reset_ids_def)
  have f: "fold (\<lambda>j r. setitem r j (env_decision c1 j)) ids resp' =
           fold (\<lambda>j r. setitem r j (env_decision c j)) ids resp'" for resp'
    using dec by (intro fold_cong) auto
  have ok1: "\<forall>j\<in>set ids. \<forall>t. map_of (current_env_trajectories c1) j = Some t \<and> py_all (dict_values (dones t))
             \<longrightarrow> (\<exists>trs. get_trajectories t = Inr trs)"
    using Cons.prems(2) same by simp
  have d: "distinct ids" using Cons.prems(1) by simp
  note IH = Cons.IH[OF d ok1, of "setitem resp i (env_decision c i)", unfolded r o f]
  show ?case
  proof (cases "env_decision c i = RESET_RESPONSE")
    case True
    then have rs: "reset_ids c (i # ids) = i # reset_ids c ids"
      by (simp add: reset_ids_def)
    have "filter (\<lambda>entry. fst entry \<notin> set (reset_ids c ids)) (current_env_trajectories c1) =
          filter (\<lambda>entry. fst entry \<notin> set (i # reset_ids c ids)) (current_env_trajectories c)"
      using True by (auto simp: c1_def dict_pop_filter intro: filter_cong)
    then show ?thesis
      using True step IH by (simp add: rs c1_def)
  next
    case False
    then have rs: "reset_ids c (i # ids) = reset_ids c ids"
      by (simp add: reset_ids_def)
    from False have "c1 = c" by (simp add: c1_def)
    then show ?thesis
      using step IH by (simp add: rs)
  qed
qed

lemma map_of_tabulate: "map_of (map (\<lambda>i. (i, f i)) ids) i = (if i \<in> set ids then Some (f i) else None)"
  by (induction ids) auto

lemma map_of_filter_keys:
  "map_of (filter (\<lambda>entry. fst entry \<notin> S) m) i = (if i \<in> S then None else map_of m i)"
  by (induction m) auto

lemma choose_env_action_cases:
  "(map_of (current_env_trajectories c) env_id = None \<longrightarrow>
      choose_env_action env_id c = Inr (STEP_RESPONSE, c)) \<and>
   (\<forall>t. map_of (current_env_trajectories c) env_id = Some t \<and> \<not> py_all (dict_values (dones t)) \<longrightarrow>
      choose_env_action env_id c = Inr (STEP_RESPONSE, c)) \<and>
   (\<forall>t. map_of (current_env_trajectories c) env_id = Some t \<and> py_all (dict_values (dones t)) \<and>
        tracker_wf t \<and> log_rows_ok t \<longrightarrow>
      (\<exists>trajs. get_trajectories t = Inr trajs \<and> map traj_agent_id trajs = agent_ids t \<and>
         choose_env_action env_id c =
           Inr (RESET_RESPONSE,
                c\<lparr>current_env_trajectories := dict_pop (current_env_trajectories c) env_id,
                  current_trajectories := current_trajectories c @ trajs\<rparr>) \<and>
         map_of (dict_pop (current_env_trajectories c) env_id) env_id = None)) \<and>
   choose_env_actions [env_id] c =
     (case choose_env_action env_id c of
        Inl e \<Rightarrow> Inl e
      | Inr r \<Rightarrow> Inr ([(env_id, fst r)], snd r))"
proof (intro conjI allI impI)
  assume "map_of (current_env_trajectories c) env_id = None"
  then show "choose_env_action env_id c = Inr (STEP_RESPONSE, c)"
    by (simp add: choose_env_action_def)
next
  fix t
  assume "map_of (current_env_trajectories c) env_id = Some t \<and> \<not> py_all (dict_values (dones t))"
  then show "choose_env_action env_id c = Inr (STEP_RESPONSE, c)"
    by (simp add: choose_env_action_def)
next
  fix t
  assume a: "map_of (current_env_trajectories c) env_id = Some t \<and> py_all (dict_values (dones t)) \<and>
        tracker_wf t \<and> log_rows_ok t"
  then obtain trajs where g: "get_trajectories t = Inr trajs" "map traj_agent_id trajs = agent_ids t"
    using get_trajectories_total by blast
  have "map_of (dict_pop (current_env_trajectories c) env_id) env_id = None"
    by (simp add: dict_pop_def delete_conv')
  with a g show "\<exists>trajs. get_trajectories t = Inr trajs \<and> map traj_agent_id trajs = agent_ids t \<and>
         choose_env_action env_id c =
           Inr (RESET_RESPONSE,
                c\<lparr>current_env_trajectories := dict_pop (current_env_trajectories c) env_id,
                  current_trajectories := current_trajectories c @ trajs\<rparr>) \<and>
         map_of (dict_pop (current_env_trajectories c) env_id) env_id = None"
    by (simp add: choose_env_action_def)
next
  show "choose_env_actions [env_id] c =
     (case choose_env_action env_id c of
        Inl e \<Rightarrow> Inl e
      | Inr r \<Rightarrow> Inr ([(env_id, fst r)], snd r))"
    by (simp add: choose_env_actions_def setitem_def split: sum.splits)
qed

lemma choose_env_actions_eq:
  assumes "distinct state_info" and "done_trackers_ok c state_info"
  shows "choose_env_actions state_info c =
     Inr (map (\<lambda>i. (i, env_decision c i)) state_info,
          c\<lparr>current_env_trajectories :=
               filter (\<lambda>entry. fst entry \<notin> set (reset_ids c state_info)) (current_env_trajectories c),
            current_trajectories :=
               current_trajectories c @ concat (map (tracker_output c) (reset_ids c state_info))\<rparr>)"
proof -
  have ok: "\<forall>i\<in>set state_info. \<forall>t. map_of (current_env_trajectories c) i = Some t \<and>
              py_all (dict_values (dones t)) \<longrightarrow> (\<exists>trs. get_trajectories t = Inr trs)"
  proof (intro ballI allI impI)
    fix i t
    assume i: "i \<in> set state_info"
      and t: "map_of (current_env_trajectories c) i = Some t \<and> py_all (dict_values (dones t))"
    with assms(2) have "tracker_wf t \<and> log_rows_ok t"
      by (auto simp: done_trackers_ok_def list_all_iff)
    then show "\<exists>trs. get_trajectories t = Inr trs"
      using get_trajectories_total by blast
  qed
  have "fold (\<lambda>i r. setitem r i (env_decision c i)) state_info [] =
        [] @ map (\<lambda>i. (i, env_decision c i)) state_info"
    using assms(1) by (intro fold_setitem_fresh) simp_all
  with choose_env_actions_loop_eq[OF assms(1) ok, of "[]"] show ?thesis
    by (simp add: choose_env_actions_def)
qed

text \<open>
  Claim C7 (reset/step decision). \<open>choose_env_actions\<close> on the distinct environment
  ids \<open>state_info\<close> (the keys of a dict) returns one answer per queried id, in order.
  For an id without a tracker the answer is STEP; for an id whose tracker has an agent
  that is not done the answer is STEP and the tracker stays; for an id whose tracker
  has all agents done the answer is RESET, the trajectories that \<open>get_trajectories\<close>
  gives for it are appended to the completed list, in query order, and the tracker is
  removed from the map. Nothing else of the controller changes, and a query with no
  RESET leaves the controller as it was. The trackers with all agents done are taken
  to have dictionaries and log-prob rows as the constructor, \<open>add_steps\<close> and the
  producer leave them, so that \<open>get_trajectories\<close> returns.
\<close>

theorem reset_step_decision:
  assumes "distinct state_info" and "done_trackers_ok c state_info"
  shows "\<exists>resp c'. choose_env_actions state_info c = Inr (resp, c') \<and>
           map fst resp = state_info \<and>
           c' = c\<lparr>current_env_trajectories :=
                    filter (\<lambda>entry. fst entry \<notin> set (reset_ids c state_info)) (current_env_trajectories c),
                  current_trajectories :=
                    current_trajectories c @ concat (map (tracker_output c) (reset_ids c state_info))\<rparr> \<and>
           (reset_ids c state_info = [] \<longrightarrow> c' = c) \<and>
           (\<forall>env_id\<in>set state_info.
              (map_of (current_env_trajectories c) env_id = None \<longrightarrow>
                 map_of resp env_id = Some STEP_RESPONSE \<and> env_id \<notin> set (reset_ids c state_info) \<and>
                 map_of (current_env_trajectories c') env_id = None) \<and>
              (\<forall>t. map_of (current_env_trajectories c) env_id = Some t \<and>
                     \<not> py_all (dict_values (dones t)) \<longrightarrow>
                 map_of resp env_id = Some STEP_RESPONSE \<and> env_id \<notin> set (reset_ids c state_info) \<and>
                 map_of (current_env_trajectories c') env_id = Some t) \<and>
              (\<forall>t. map_of (current_env_trajectories c) env_id = Some t \<and>
                     py_all (dict_values (dones t)) \<longrightarrow>
                 map_of resp env_id = Some RESET_RESPONSE \<and> env_id \<in> set (reset_ids c state_info) \<and>
                 get_trajectories t = Inr (tracker_output c env_id) \<and>
                 map_of (current_env_trajectories c') env_id = None)) \<and>
           (\<forall>env_id. env_id \<notin> set state_info \<longrightarrow>
              map_of (current_env_trajectories c') env_id = map_of (current_env_trajectories c) env_id)"
proof -
  let ?resp = "map (\<lambda>i. (i, env_decision c i)) state_info"
  let ?c' = "c\<lparr>current_env_trajectories :=
                    filter (\<lambda>entry. fst entry \<notin> set (reset_ids c state_info)) (current_env_trajectories c),
                  current_trajectories :=
                    current_trajectories c @ concat (map (tracker_output c) (reset_ids c state_info))\<rparr>"
  have run: "choose_env_actions state_info c = Inr (?resp, ?c')"
    using assms by (rule choose_env_actions_eq)
  have keys: "map fst ?resp = state_info"
    by (simp add: comp_def)
  have none: "reset_ids c state_info = [] \<longrightarrow> ?c' = c"
    by simp
  have cur: "map_of (current_env_trajectories ?c') i =
             (if i \<in> set (reset_ids c state_info) then None else map_of (current_env_trajectories c) i)" for i
    by (simp add: map_of_filter_keys)
  have per_id:
    "(map_of (current_env_trajectories c) i = None \<longrightarrow>
        map_of ?resp i = Some STEP_RESPONSE \<and> i \<notin> set (reset_ids c state_info) \<and>
        map_of (current_env_trajectories ?c') i = None) \<and>
     (\<forall>t. map_of (current_env_trajectories c) i = Some t \<and> \<not> py_all (dict_values (dones t)) \<longrightarrow>
        map_of ?resp i = Some STEP_RESPONSE \<and> i \<notin> set (reset_ids c state_info) \<and>
        map_of (current_env_trajectories ?c') i = Some t) \<and>
     (\<forall>t. map_of (current_env_trajectories c) i = Some t \<and> py_all (dict_values (dones t)) \<longrightarrow>
        map_of ?resp i = Some RESET_RESPONSE \<and> i \<in> set (reset_ids c state_info) \<and>
        get_trajectories t = Inr (tracker_output c i) \<and>
        map_of (current_env_trajectories ?c') i = None)"
    if i: "i \<in> set state_info" for i
  proof (intro conjI allI impI)
    assume n: "map_of (current_env_trajectories c) i = None"
    then have d: "env_decision c i = STEP_RESPONSE" by (simp add: env_decision_def)
    show "map_of ?resp i = Some STEP_RESPONSE" using i d by (simp add: map_of_tabulate)
    show "i \<notin> set (reset_ids c state_info)" using d by (simp add: reset_ids_def)
    then show "map_of (current_env_trajectories ?c') i = None" using n unfolding cur by simp
  next
    fix t
    assume s: "map_of (current_env_trajectories c) i = Some t \<and> \<not> py_all (dict_values (dones t))"
    then have d: "env_decision c i = STEP_RESPONSE" by (simp add: env_decision_def)
    show "map_of ?resp i = Some STEP_RESPONSE" using i d by (simp add: map_of_tabulate)
    show "i \<notin> set (reset_ids c state_info)" using d by (simp add: reset_ids_def)
    then show "map_of (current_env_trajectories ?c') i = Some t" using s unfolding cur by simp
  next
    fix t
    assume s: "map_of (current_env_trajectories c) i = Some t \<and> py_all (dict_values (dones t))"
    then have d: "env_decision c i = RESET_RESPONSE" by (simp add: env_decision_def)
    show "map_of ?resp i = Some RESET_RESPONSE" using i d by (simp add: map_of_tabulate)
    show r: "i \<in> set (reset_ids c state_info)" using i d by (simp add: reset_ids_def)
    from s i assms(2) have "tracker_wf t \<and> log_rows_ok t"
      by (auto simp: done_trackers_ok_def list_all_iff)
    then obtain trs where "get_trajectories t = Inr trs"
      using get_trajectories_total by blast
    then show "get_trajectories t = Inr (tracker_output c i)"
      using s by (simp add: tracker_output_def)
    show "map_of (current_env_trajectories ?c') i = None" using r unfolding cur by simp
  qed
  have others: "\<forall>i. i \<notin> set state_info \<longrightarrow>
        map_of (current_env_trajectories ?c') i = map_of (current_env_trajectories c) i"
    unfolding cur by (auto simp: reset_ids_def)
  show ?thesis
    using run keys none per_id others by blast
qed

lemma ex_after_wf: "tracker_wf ex_tracker_after"
  by (simp add: ex_tracker_after_def tracker_wf_def keys_are_def dict_keys_def)

lemma ex_collecting_trackers:
  "current_env_trajectories ex_collecting = [(''env0'', ex_tracker_after), (''env1'', ex_tracker)]"
  "current_trajectories ex_collecting = []"
  by (simp_all add: ex_collecting_def ex_controller_def PPOAgentController_init_def)

lemma ex_dones:
  "py_all (dict_values (dones ex_tracker_after))" "\<not> py_all (dict_values (dones ex_tracker))"
  by (simp_all add: ex_tracker_after_def ex_tracker_def py_all_def dict_values_def)

lemma ex_after_rows: "log_rows_ok ex_tracker_after"
  by (simp add: ex_tracker_after_def log_rows_ok_def)

lemma ex_decisions:
  "env_decision ex_collecting ''env0'' = RESET_RESPONSE"
  "env_decision ex_collecting ''env1'' = STEP_RESPONSE"
  "env_decision ex_collecting ''env2'' = STEP_RESPONSE"
  by (simp_all add: env_decision_def ex_collecting_trackers ex_dones)

lemma ex_query:
  "choose_env_actions [''env0'', ''env1'', ''env2''] ex_collecting =
     Inr ([(''env0'', RESET_RESPONSE), (''env1'', STEP_RESPONSE), (''env2'', STEP_RESPONSE)],
          ex_collecting\<lparr>current_env_trajectories := [(''env1'', ex_tracker)],
                        current_trajectories := [ex_traj_A, ex_traj_B]\<rparr>)"
proof -
  have d: "distinct [''env0'', ''env1'', ''env2'']" by simp
  have ok: "done_trackers_ok ex_collecting [''env0'', ''env1'', ''env2'']"
    by (simp add: done_trackers_ok_def ex_collecting_trackers ex_dones ex_after_wf ex_after_rows)
  have r: "reset_ids ex_collecting [''env0'', ''env1'', ''env2''] = [''env0'']"
    by (simp add: reset_ids_def ex_decisions)
  have out: "tracker_output ex_collecting ''env0'' = [ex_traj_A, ex_traj_B]"
    by (simp add: tracker_output_def ex_collecting_trackers ex_get)
  show ?thesis
    unfolding choose_env_actions_eq[OF d ok] r
    by (simp add: ex_decisions out ex_collecting_trackers)
qed

theorem reset_step_decision_witness:
  "distinct [''env0'', ''env1'', ''env2''] \<and>
   done_trackers_ok ex_collecting [''env0'', ''env1'', ''env2''] \<and>
   map_of (current_env_trajectories ex_collecting) ''env0'' = Some ex_tracker_after \<and>
   py_all (dict_values (dones ex_tracker_after)) \<and>
   map_of (current_env_trajectories ex_collecting) ''env1'' = Some ex_tracker \<and>
   \<not> py_all (dict_values (dones ex_tracker)) \<and>
   map_of (current_env_trajectories ex_collecting) ''env2'' = None \<and>
   reset_ids ex_collecting [''env0'', ''env1'', ''env2''] = [''env0''] \<and>
   get_trajectories ex_tracker_after = Inr [ex_traj_A, ex_traj_B] \<and>
   choose_env_actions [''env0'', ''env1'', ''env2''] ex_collecting =
     Inr ([(''env0'', RESET_RESPONSE), (''env1'', STEP_RESPONSE), (''env2'', STEP_RESPONSE)],
          ex_collecting\<lparr>current_env_trajectories := [(''env1'', ex_tracker)],
                        current_trajectories := [ex_traj_A, ex_traj_B]\<rparr>)"
proof -
  have d: "distinct [''env0'', ''env1'', ''env2'']" by simp
  have ok: "done_trackers_ok ex_collecting [''env0'', ''env1'', ''env2'']"
    by (simp add: done_trackers_ok_def ex_collecting_trackers ex_dones ex_after_wf ex_after_rows)
  have m: "map_of (current_env_trajectories ex_collecting) ''env0'' = Some ex_tracker_after"
    "map_of (current_env_trajectories ex_collecting) ''env1'' = Some ex_tracker"
    "map_of (current_env_trajectories ex_collecting) ''env2'' = None"
    by (simp_all add: ex_collecting_trackers)
  have r: "reset_ids ex_collecting [''env0'', ''env1'', ''env2''] = [''env0'']"
    by (simp add: reset_ids_def ex_decisions)
  from reset_step_decision[OF d ok] obtain resp c' where
    "choose_env_actions [''env0'', ''env1'', ''env2''] ex_collecting = Inr (resp, c')"
    by blast
  with ex_query have "resp = [(''env0'', RESET_RESPONSE), (''env1'', STEP_RESPONSE), (''env2'', STEP_RESPONSE)]"
    by simp
  then show ?thesis
    using d ok m r ex_dones ex_get ex_query by blast
qed

subsection \<open>The learning step\<close>

lemma update_value_predictions_frame:
  "update_value_predictions c = Inr c1 \<Longrightarrow> \<exists>trs. c1 = c\<lparr>current_trajectories := trs\<rparr>"
  by (auto simp: update_value_predictions_def split: prod.splits sum.splits)

text \<open>
  Claim C3 (reset after a learning step). When \<open>_learn\<close> returns, the state-metrics
  list, the open-tracker map and the completed-trajectory list are empty,
  \<open>iteration_timesteps\<close> has been added to \<open>ts_since_last_save\<close> and zeroed, and both
  start timers hold the clock readings taken in the call. \<open>cur_iteration\<close> is what it
  was before the call: nothing in \<open>_learn\<close>, nor anywhere else in the controller,
  increments it.
\<close>

theorem learn_resets_iteration_state:
  assumes "learn cur_time restart_time c = Inr c'"
  shows "iteration_state_metrics c' = [] \<and> current_env_trajectories c' = [] \<and>
         current_trajectories c' = [] \<and>
         ts_since_last_save c' = ts_since_last_save c + iteration_timesteps c \<and>
         iteration_timesteps c' = 0 \<and>
         iteration_start_time c' = cur_time \<and>
         timestep_collection_start_time c' = restart_time \<and>
         cur_iteration c' = cur_iteration c"
proof -
  from assms obtain r c1 where
    c1: "update_value_predictions
           (c\<lparr>current_env_trajectories := fst r, current_trajectories := snd r\<rparr>) = Inr c1"
    and c': "c' = c1\<lparr>iteration_state_metrics := [],
                  current_env_trajectories := [],
                  current_trajectories := [],
                  ts_since_last_save := ts_since_last_save c1 + iteration_timesteps c1,
                  iteration_timesteps := 0,
                  iteration_start_time := cur_time,
                  timestep_collection_start_time := restart_time\<rparr>"
    by (auto simp: learn_def split: sum.splits)
  from update_value_predictions_frame[OF c1] obtain trs where
    "c1 = c\<lparr>current_env_trajectories := fst r, current_trajectories := trs\<rparr>"
    by auto
  then show ?thesis
    by (simp add: c')
qed

lemma ex_finalize_trackers:
  "finalize_trackers_loop (current_env_trajectories ex_collecting) (current_trajectories ex_collecting) =
     Inr ([(''env0'', ex_tracker_after),
           (''env1'', ex_tracker\<lparr>dones := [(''A'', True), (''B'', True)],
                                  truncateds := [(''A'', False), (''B'', True)]\<rparr>)],
          [ex_traj_A, ex_traj_B,
           \<lparr>traj_agent_id = ''A'', obs_list = [1], action_list = [10], log_probs = [-1],
            reward_list = [0], val_preds = None, traj_final_obs = Some 3, final_val_pred = 0,
            traj_truncated = False\<rparr>,
           \<lparr>traj_agent_id = ''B'', obs_list = [2], action_list = [20], log_probs = [-2],
            reward_list = [1], val_preds = None, traj_final_obs = Some 4, final_val_pred = 0,
            traj_truncated = True\<rparr>])"
  by (simp add: ex_collecting_def ex_controller_def PPOAgentController_init_def
      ex_tracker_def ex_tracker_after_def ex_traj_A_def ex_traj_B_def
      finalize_def getitem_def setitem_def get_trajectories_def torch_stack_def column_def
      enumerate_eq_zip upt_rec)

lemma ex_learn: "learn 5 6 ex_collecting = Inr ex_learned"
  unfolding learn_def ex_finalize_trackers
  by (simp add: ex_learned_def ex_collecting_def ex_controller_def PPOAgentController_init_def
      update_value_predictions_def ex_learner_def ex_critic_def ex_buffer_def
      ex_traj_A_def ex_traj_B_def Let_def py_index_def upt_rec)

theorem learn_resets_iteration_state_witness:
  "learn 5 6 ex_collecting = Inr ex_learned \<and>
   iteration_state_metrics ex_learned = [] \<and> current_env_trajectories ex_learned = [] \<and>
   current_trajectories ex_learned = [] \<and> ts_since_last_save ex_learned = 4 \<and>
   iteration_timesteps ex_learned = 0 \<and> iteration_start_time ex_learned = 5 \<and>
   timestep_collection_start_time ex_learned = 6 \<and>
   cur_iteration ex_collecting = 0 \<and> cur_iteration ex_learned = 0"
  using learn_resets_iteration_state[OF ex_learn] ex_learn
  by (simp add: ex_collecting_def ex_controller_def PPOAgentController_init_def)

text \<open>
  Claim C10 (save without a metrics logger). For a controller whose \<open>metrics_logger\<close>
  is \<open>None\<close>, \<open>save_checkpoint\<close> raises; when the learner and the experience buffer
  save, what it raises is the \<open>AttributeError\<close> of calling a method on \<open>None\<close>. On
  the example controller, which holds no metrics logger, \<open>_learn\<close> returns all the
  same, its metrics block being guarded by the test for \<open>None\<close>.
\<close>

theorem save_checkpoint_needs_metrics_logger:
  assumes "metrics_logger c = None"
  shows "(\<exists>e. save_checkpoint now c fs = Inl e) \<and>
         (\<forall>learner_files buffer_files.
            learner_save_checkpoint (learner c) = Inr learner_files \<and>
            buffer_save_checkpoint (experience_buffer c) = Inr buffer_files \<longrightarrow>
            save_checkpoint now c fs = Inl AttributeError)"
  using assms by (auto simp: save_checkpoint_def split: sum.splits)

theorem save_checkpoint_needs_metrics_logger_witness:
  "metrics_logger ex_collecting = None \<and>
   learner_save_checkpoint (learner ex_collecting) = Inr 1 \<and>
   buffer_save_checkpoint (experience_buffer ex_collecting) = Inr 2 \<and>
   save_checkpoint 7 ex_collecting [] = Inl AttributeError \<and>
   learn 5 6 ex_collecting = Inr ex_learned"
proof -
  have m: "metrics_logger ex_collecting = None"
    by (simp add: ex_collecting_def ex_controller_def PPOAgentController_init_def)
  have s: "learner_save_checkpoint (learner ex_collecting) = Inr 1"
    "buffer_save_checkpoint (experience_buffer ex_collecting) = Inr 2"
    by (simp_all add: ex_collecting_def ex_controller_def PPOAgentController_init_def
        ex_learner_def ex_buffer_def)
  from save_checkpoint_needs_metrics_logger[OF m, of 7 "[]"] m s ex_learn show ?thesis
    by simp
qed

subsection \<open>Pruning of checkpoint directories\<close>

lemma conformingD: "conforming name \<Longrightarrow> py_int name = Inr (token name) \<and> py_str (token name) = name"
  by (auto simp: conforming_def token_def split: sum.splits)

lemma int_names_conforming:
  "list_all conforming names \<Longrightarrow> int_names names = Inr (map token names)"
  by (induction names) (auto dest: conformingD)

lemma token_inj:
  "conforming a \<Longrightarrow> conforming b \<Longrightarrow> token a = token b \<Longrightarrow> a = b"
  by (metis conformingD)

lemma rmtree_loop_conforming:
  "list_all conforming (map fst fs) \<Longrightarrow> distinct ds \<Longrightarrow> set ds \<subseteq> token ` fst ` set fs \<Longrightarrow>
   rmtree_loop ds fs = Inr (filter (\<lambda>entry. token (fst entry) \<notin> set ds) fs)"
proof (induction ds arbitrary: fs)
  case Nil
  then show ?case by simp
next
  case (Cons d ds)
  from Cons.prems(3) obtain name where name: "name \<in> fst ` set fs" "token name = d"
    by auto
  with Cons.prems(1) have c: "conforming name"
    by (auto simp: list_all_iff)
  then have str: "py_str d = name"
    using name(2) conformingD by blast
  then obtain folder where found: "map_of fs (py_str d) = Some folder"
    using name(1) by (metis image_set map_of_eq_None_iff not_None_eq)
  let ?fs1 = "filter (\<lambda>entry. fst entry \<noteq> name) fs"
  have same: "fst entry \<noteq> name \<longleftrightarrow> token (fst entry) \<noteq> d" if "entry \<in> set fs" for entry
    using that Cons.prems(1) c name(2) token_inj[of "fst entry" name]
    by (auto simp: list_all_iff)
  then have fs1: "?fs1 = filter (\<lambda>entry. token (fst entry) \<noteq> d) fs"
    by (intro filter_cong) auto
  have conf1: "list_all conforming (map fst ?fs1)"
    using Cons.prems(1) by (auto simp: list_all_iff)
  have sub1: "set ds \<subseteq> token ` fst ` set ?fs1"
  proof
    fix k assume k: "k \<in> set ds"
    with Cons.prems(2) have "k \<noteq> d" by auto
    moreover from k Cons.prems(3) obtain e where "e \<in> set fs" "token (fst e) = k" by auto
    ultimately show "k \<in> token ` fst ` set ?fs1"
      unfolding fs1 by force
  qed
  have "rmtree_loop ds ?fs1 = Inr (filter (\<lambda>entry. token (fst entry) \<notin> set ds) ?fs1)"
    using conf1 Cons.prems(2) sub1 by (intro Cons.IH) auto
  also have "filter (\<lambda>entry. token (fst entry) \<notin> set ds) ?fs1 =
             filter (\<lambda>entry. token (fst entry) \<notin> set (d # ds)) fs"
    unfolding fs1 filter_filter by (intro filter_cong) auto
  finally show ?case
    using found by (simp add: dict_pop_filter str)
qed

lemma py_slice_drop_last:
  "0 < keep \<Longrightarrow> keep < int (length xs) \<Longrightarrow> py_slice xs 0 (- keep) = take (length xs - nat keep) xs"
  by (simp add: py_slice_def slice_bound_def Let_def nat_diff_distrib')

lemma retention_pruning:
  assumes "list_all conforming (map fst fs)" and "distinct (map fst fs)" and "0 < keep"
  shows "prune_checkpoints keep fs =
           Inr (filter (\<lambda>entry. token (fst entry) \<in>
                          set (drop (length fs - nat keep) (sort (map token (map fst fs))))) fs)"
proof -
  let ?ks = "map token (map fst fs)"
  have names: "int_names (map fst fs) = Inr ?ks"
    using assms(1) by (rule int_names_conforming)
  have inj: "inj_on token (set (map fst fs))"
    using assms(1) by (intro inj_onI token_inj) (auto simp: list_all_iff)
  have dist: "distinct ?ks"
    using assms(2) inj by (subst distinct_map) blast
  show ?thesis
  proof (cases "int (length fs) > keep")
    case False
    then have "drop (length fs - nat keep) (sort ?ks) = sort ?ks" by simp
    then have "filter (\<lambda>entry. token (fst entry) \<in>
                 set (drop (length fs - nat keep) (sort ?ks))) fs = fs"
      by (simp add: filter_id_conv)
    with False names show ?thesis
      by (simp add: prune_checkpoints_def)
  next
    case True
    let ?m = "length fs - nat keep"
    have del: "py_slice (sort ?ks) 0 (- keep) = take ?m (sort ?ks)"
      using assms(3) True py_slice_drop_last[of keep "sort ?ks"] by simp
    have d1: "distinct (take ?m (sort ?ks))"
      using dist by simp
    have s1: "set (take ?m (sort ?ks)) \<subseteq> token ` fst ` set fs"
      using set_take_subset[of ?m "sort ?ks"] by (auto simp: image_image)
    have split: "token (fst e) \<notin> set (take ?m (sort ?ks)) \<longleftrightarrow> token (fst e) \<in> set (drop ?m (sort ?ks))"
      if "e \<in> set fs" for e
    proof -
      have "distinct (take ?m (sort ?ks) @ drop ?m (sort ?ks))"
        using dist by simp
      then have disj: "set (take ?m (sort ?ks)) \<inter> set (drop ?m (sort ?ks)) = {}"
        unfolding distinct_append by blast
      have "token (fst e) \<in> set (take ?m (sort ?ks) @ drop ?m (sort ?ks))"
        using that by simp
      then show ?thesis
        using disj unfolding set_append by blast
    qed
    have "rmtree_loop (take ?m (sort ?ks)) fs =
          Inr (filter (\<lambda>entry. token (fst entry) \<notin> set (take ?m (sort ?ks))) fs)"
      using assms(1) d1 s1 by (rule rmtree_loop_conforming)
    also have "filter (\<lambda>entry. token (fst entry) \<notin> set (take ?m (sort ?ks))) fs =
               filter (\<lambda>entry. token (fst entry) \<in> set (drop ?m (sort ?ks))) fs"
      using split by (intro filter_cong) auto
    finally show ?thesis
      using True names del by (simp add: prune_checkpoints_def)
  qed
qed

lemma retention_zero:
  assumes "list_all conforming (map fst fs)"
  shows "prune_checkpoints 0 fs = Inr fs"
proof -
  have "int_names (map fst fs) = Inr (map token (map fst fs))"
    using assms by (rule int_names_conforming)
  then show ?thesis
    by (simp add: prune_checkpoints_def py_slice_def slice_bound_def)
qed

subsection \<open>Decimal names\<close>

declare str_nat.simps [simp del]

lemma digit_val_digit_char: "d < 10 \<Longrightarrow> digit_val (digit_char d) = Some d"
  by (auto simp: digit_char_def digit_val_def)

lemma digit_val_plain:
  "digit_val ch = Some d \<Longrightarrow>
   \<not> is_space ch \<and> ch \<noteq> CHR ''-'' \<and> ch \<noteq> CHR ''+'' \<and> ch \<noteq> CHR ''_''"
  by (auto simp: digit_val_def is_space_def split: if_splits)

lemma str_nat_digits: "str_nat n \<noteq> [] \<and> list_all (\<lambda>ch. digit_val ch \<noteq> None) (str_nat n)"
proof (induction n rule: str_nat.induct)
  case (1 n)
  show ?case
  proof (cases "n < 10")
    case True
    then show ?thesis by (subst (1 2) str_nat.simps) (simp add: digit_val_digit_char)
  next
    case False
    with 1 show ?thesis by (subst (1 2) str_nat.simps) (simp add: digit_val_digit_char)
  qed
qed

lemma int_digits_loop_digits:
  "list_all (\<lambda>ch. digit_val ch \<noteq> None) ds \<Longrightarrow>
   int_digits_loop acc ds = Some (foldl (\<lambda>a ch. 10 * a + the (digit_val ch)) acc ds)"
proof (induction acc ds rule: int_digits_loop.induct)
  case (1 acc)
  then show ?case by simp
next
  case (2 acc ch)
  then show ?case by auto
next
  case (3 acc ch ch' rest)
  from 3(3) obtain d where d: "digit_val ch = Some d" by auto
  then have "ch \<noteq> CHR ''_''" using digit_val_plain by blast
  with 3 d show ?case by simp
qed

lemma dec_val_str_nat: "foldl (\<lambda>a ch. 10 * a + the (digit_val ch)) 0 (str_nat n) = n"
proof (induction n rule: str_nat.induct)
  case (1 n)
  show ?case
  proof (cases "n < 10")
    case True
    then show ?thesis by (subst str_nat.simps) (simp add: digit_val_digit_char)
  next
    case False
    with 1 show ?thesis by (subst str_nat.simps) (simp add: digit_val_digit_char)
  qed
qed

lemma int_digits_str_nat: "int_digits (str_nat n) = Some n"
proof -
  obtain ch rest where s: "str_nat n = ch # rest"
    using str_nat_digits[of n] by (cases "str_nat n") auto
  with str_nat_digits[of n] obtain d where d: "digit_val ch = Some d"
    and rest: "list_all (\<lambda>ch. digit_val ch \<noteq> None) rest" by auto
  have "foldl (\<lambda>a ch. 10 * a + the (digit_val ch)) d rest = n"
    using dec_val_str_nat[of n] d by (simp add: s)
  then show ?thesis
    using d int_digits_loop_digits[OF rest, of d] by (simp add: int_digits_def s)
qed

lemma py_strip_id: "s \<noteq> [] \<Longrightarrow> \<not> is_space (hd s) \<Longrightarrow> \<not> is_space (last s) \<Longrightarrow> py_strip s = s"
proof -
  assume a: "s \<noteq> []" "\<not> is_space (hd s)" "\<not> is_space (last s)"
  then have "dropWhile is_space s = s"
    by (cases s) auto
  moreover have "dropWhile is_space (rev s) = rev s"
    using a by (cases "rev s") (auto simp: hd_rev[symmetric] simp del: hd_rev)
  ultimately show ?thesis
    by (simp add: py_strip_def)
qed

lemma py_int_py_str: "py_int (py_str i) = Inr i"
proof -
  let ?n = "if i < 0 then nat (- i) else nat i"
  obtain ch rest where s: "str_nat ?n = ch # rest"
    using str_nat_digits[of ?n] by (cases "str_nat ?n") auto
  from str_nat_digits[of ?n] have all: "list_all (\<lambda>ch. digit_val ch \<noteq> None) (ch # rest)"
    by (simp add: s)
  then obtain d where d: "digit_val ch = Some d" by auto
  have "last (ch # rest) \<in> set (ch # rest)" by (rule last_in_set) simp
  with all obtain d' where d': "digit_val (last (ch # rest)) = Some d'"
    unfolding list_all_iff by blast
  note p = digit_val_plain[OF d] digit_val_plain[OF d']
  show ?thesis
  proof (cases "i < 0")
    case True
    then have str: "py_str i = CHR ''-'' # ch # rest"
      using s by (simp add: py_str_def)
    have "py_strip (CHR ''-'' # ch # rest) = CHR ''-'' # ch # rest"
      using p by (intro py_strip_id) (simp_all add: is_space_def)
    moreover have "int_digits (ch # rest) = Some (nat (- i))"
      using int_digits_str_nat[of ?n] True s by simp
    ultimately show ?thesis
      using True by (simp add: py_int_def str)
  next
    case False
    then have str: "py_str i = ch # rest"
      using s by (simp add: py_str_def)
    have "py_strip (ch # rest) = ch # rest"
      using p by (intro py_strip_id) simp_all
    moreover have "int_digits (ch # rest) = Some (nat i)"
      using int_digits_str_nat[of ?n] False s by simp
    ultimately show ?thesis
      using False p by (simp add: py_int_def str)
  qed
qed

lemma conforming_py_str: "conforming (py_str i)"
  by (simp add: conforming_def py_int_py_str)

lemma token_py_str: "token (py_str i) = i"
  by (simp add: token_def py_int_py_str)

subsection \<open>Saving and loading\<close>

lemma save_checkpoint_Inr:
  assumes "save_checkpoint now c fs = Inr fs'"
  shows "\<exists>learner_files buffer_files logger_files ml state.
           learner_save_checkpoint (learner c) = Inr learner_files \<and>
           buffer_save_checkpoint (experience_buffer c) = Inr buffer_files \<and>
           metrics_logger c = Some ml \<and> logger_save_checkpoint ml = Inr logger_files \<and>
           checkpoint_state c = Inr state \<and>
           prune_checkpoints (n_checkpoints_to_keep (config c))
             (setitem fs (py_str now)
                \<lparr>ppo_learner_folder = Some learner_files,
                 experience_buffer_folder = Some buffer_files,
                 metrics_logger_folder = Some logger_files,
                 current_trajectories_file = Some (current_trajectories c),
                 iteration_state_metrics_file = Some (iteration_state_metrics c),
                 ppo_agent_file = Some state\<rparr>) = Inr fs'"
  using assms by (auto simp: save_checkpoint_def split: sum.splits option.splits)

lemma setitem_conforming:
  "list_all conforming (map fst fs) \<Longrightarrow> list_all conforming (map fst (setitem fs (py_str now) folder))"
  using dom_update[of "py_str now" folder fs] conforming_py_str[of now]
  unfolding list_all_iff setitem_def by (auto simp flip: image_set)

lemma save_checkpoint_prunes:
  assumes "save_checkpoint now c fs = Inr fs'"
    and "list_all conforming (map fst fs)" and "distinct (map fst fs)"
    and "0 < n_checkpoints_to_keep (config c)"
  shows "\<exists>folder. map_of (setitem fs (py_str now) folder) (py_str now) = Some folder \<and>
           fs' = filter (\<lambda>entry. token (fst entry) \<in>
                    set (drop (length (setitem fs (py_str now) folder) - nat (n_checkpoints_to_keep (config c)))
                          (sort (map token (map fst (setitem fs (py_str now) folder))))))
                   (setitem fs (py_str now) folder)"
proof -
  from save_checkpoint_Inr[OF assms(1)] obtain folder where
    p: "prune_checkpoints (n_checkpoints_to_keep (config c)) (setitem fs (py_str now) folder) = Inr fs'"
    by blast
  have "distinct (map fst (setitem fs (py_str now) folder))"
    using assms(3) by (simp add: setitem_def distinct_update)
  from retention_pruning[OF setitem_conforming[OF assms(2)] this assms(4)] p
  show ?thesis
    by (intro exI[of _ folder]) (simp add: map_of_setitem)
qed

lemma rmtree_loop_sub:
  "rmtree_loop ds fs = Inr fs' \<Longrightarrow> map_of fs' name = Some folder \<Longrightarrow> map_of fs name = Some folder"
proof (induction ds arbitrary: fs)
  case Nil
  then show ?case by simp
next
  case (Cons d ds)
  from Cons.prems(1) have "rmtree_loop ds (dict_pop fs (py_str d)) = Inr fs'"
    by (auto split: option.splits)
  from Cons.IH[OF this Cons.prems(2)] show ?case
    by (auto simp: dict_pop_def delete_conv' split: if_splits)
qed

lemma prune_checkpoints_sub:
  "prune_checkpoints keep fs = Inr fs' \<Longrightarrow> map_of fs' name = Some folder \<Longrightarrow>
   map_of fs name = Some folder"
  by (auto simp: prune_checkpoints_def split: sum.splits if_splits dest: rmtree_loop_sub)

lemmas checkpoint_eval = save_checkpoint_def checkpoint_state_def prune_checkpoints_def
  py_int_def py_strip_def is_space_def int_digits_def digit_val_def py_str_def str_nat.simps
  digit_char_def setitem_def dict_pop_def py_slice_def slice_bound_def Let_def

lemmas ex_controller_defs = ex_saving_def ex_collecting_def ex_controller_def ex_fresh_def
  PPOAgentController_init_def ex_config_def ex_learner_def ex_buffer_def ex_logger_def

lemma ex_save: "save_checkpoint 7 ex_saving [] = Inr [(''7'', ex_saved_folder)]"
  by (simp add: checkpoint_eval ex_controller_defs ex_saved_folder_def)

lemma ex_load: "load_from_checkpoint ex_saved_folder ex_fresh = Inr ex_restored"
  by (simp add: load_from_checkpoint_def ex_saved_folder_def ex_restored_def)

text \<open>
  Claim C1 (checkpoint round trip). When \<open>save_checkpoint\<close> returns and its directory
  is still in the checkpoint root, \<open>_load_from_checkpoint\<close> on that directory returns
  a controller with the saved \<open>cur_iteration\<close>, \<open>iteration_timesteps\<close>,
  \<open>cumulative_timesteps\<close>, both start times, the saved completed-trajectory list and
  the saved state metrics. The open-tracker map is not part of the checkpoint: after
  the load it is the map that the loading controller had before, not the saved one.
\<close>

theorem checkpoint_round_trip:
  assumes "save_checkpoint now c fs = Inr fs'" and "map_of fs' (py_str now) = Some folder"
  shows "\<exists>c1. load_from_checkpoint folder c0 = Inr c1 \<and>
           cur_iteration c1 = cur_iteration c \<and>
           iteration_timesteps c1 = iteration_timesteps c \<and>
           cumulative_timesteps c1 = cumulative_timesteps c \<and>
           iteration_start_time c1 = iteration_start_time c \<and>
           timestep_collection_start_time c1 = timestep_collection_start_time c \<and>
           current_trajectories c1 = current_trajectories c \<and>
           iteration_state_metrics c1 = iteration_state_metrics c \<and>
           current_env_trajectories c1 = current_env_trajectories c0"
proof -
  from save_checkpoint_Inr[OF assms(1)] obtain learner_files buffer_files logger_files state where
    st: "checkpoint_state c = Inr state"
    and p: "prune_checkpoints (n_checkpoints_to_keep (config c))
             (setitem fs (py_str now)
                \<lparr>ppo_learner_folder = Some learner_files,
                 experience_buffer_folder = Some buffer_files,
                 metrics_logger_folder = Some logger_files,
                 current_trajectories_file = Some (current_trajectories c),
                 iteration_state_metrics_file = Some (iteration_state_metrics c),
                 ppo_agent_file = Some state\<rparr>) = Inr fs'"
    by blast
  from prune_checkpoints_sub[OF p assms(2)] have folder:
    "folder = \<lparr>ppo_learner_folder = Some learner_files,
                 experience_buffer_folder = Some buffer_files,
                 metrics_logger_folder = Some logger_files,
                 current_trajectories_file = Some (current_trajectories c),
                 iteration_state_metrics_file = Some (iteration_state_metrics c),
                 ppo_agent_file = Some state\<rparr>"
    by (simp add: map_of_setitem)
  from st have "json_cur_iteration state = cur_iteration c"
    "json_iteration_timesteps state = iteration_timesteps c"
    "json_cumulative_timesteps state = cumulative_timesteps c"
    "json_iteration_start_time state = iteration_start_time c"
    "json_timestep_collection_start_time state = timestep_collection_start_time c"
    by (auto simp: checkpoint_state_def split: sum.splits)
  then show ?thesis
    by (simp add: load_from_checkpoint_def folder)
qed

theorem checkpoint_round_trip_witness:
  "save_checkpoint 7 ex_saving [] = Inr [(''7'', ex_saved_folder)] \<and>
   map_of [(''7'', ex_saved_folder)] (py_str 7) = Some ex_saved_folder \<and>
   load_from_checkpoint ex_saved_folder ex_fresh = Inr ex_restored \<and>
   current_trajectories ex_restored = current_trajectories ex_saving \<and>
   iteration_timesteps ex_restored = iteration_timesteps ex_saving \<and>
   iteration_start_time ex_restored = iteration_start_time ex_saving \<and>
   current_env_trajectories ex_saving = [(''env0'', ex_tracker_after), (''env1'', ex_tracker)] \<and>
   current_env_trajectories ex_restored = []"
proof -
  have name: "map_of [(''7'', ex_saved_folder)] (py_str 7) = Some ex_saved_folder"
    by (simp add: py_str_def str_nat.simps digit_char_def)
  from checkpoint_round_trip[OF ex_save name, of ex_fresh] ex_save name ex_load show ?thesis
    by (simp add: ex_restored_def ex_controller_defs)
qed

text \<open>
  Claim C8 (retention pruning). For a retention count of at least one the pruning block
  keeps exactly the directories with the largest tokens (\<open>retention_pruning\<close>,
  \<open>save_checkpoint_prunes\<close>), and the example of the claim holds (\<open>ex_save_prunes\<close>).
  With the retention count 0 the slice \<open>existing_checkpoints[: -0]\<close> is empty, so a
  save deletes nothing: every directory that was there is still there, next to the new
  one.
\<close>

theorem retention_zero_keeps_all:
  assumes "save_checkpoint now c fs = Inr fs'" and "n_checkpoints_to_keep (config c) = 0"
    and "list_all conforming (map fst fs)"
  shows "set (map fst fs') = insert (py_str now) (set (map fst fs)) \<and> length fs \<le> length fs'"
proof -
  from save_checkpoint_Inr[OF assms(1)] obtain folder where
    p: "prune_checkpoints 0 (setitem fs (py_str now) folder) = Inr fs'"
    unfolding assms(2) by blast
  have "fs' = setitem fs (py_str now) folder"
    using retention_zero[OF setitem_conforming[OF assms(3)], of now folder] p by simp
  moreover have "length fs \<le> length (AList.update (py_str now) folder fs)"
    by (induction fs) auto
  ultimately show ?thesis
    using dom_update[of "py_str now" folder fs] by (simp add: setitem_def)
qed

lemma ex_save_zero:
  "save_checkpoint 2 (ex_saving\<lparr>config := ex_config\<lparr>n_checkpoints_to_keep := 0\<rparr>\<rparr>)
     [(''1'', empty_folder)] =
   Inr [(''1'', empty_folder), (''2'', ex_saved_folder)]"
  by (simp add: checkpoint_eval ex_controller_defs ex_saved_folder_def)

theorem retention_zero_keeps_all_witness:
  "save_checkpoint 2 (ex_saving\<lparr>config := ex_config\<lparr>n_checkpoints_to_keep := 0\<rparr>\<rparr>)
     [(''1'', empty_folder)] =
     Inr [(''1'', empty_folder), (''2'', ex_saved_folder)] \<and>
   n_checkpoints_to_keep (config (ex_saving\<lparr>config := ex_config\<lparr>n_checkpoints_to_keep := 0\<rparr>\<rparr>)) = 0 \<and>
   list_all conforming [''1''] \<and>
   set (map fst [(''1'', empty_folder), (''2'', ex_saved_folder)]) = {''1'', ''2''}"
proof -
  have k: "n_checkpoints_to_keep (config (ex_saving\<lparr>config := ex_config\<lparr>n_checkpoints_to_keep := 0\<rparr>\<rparr>)) = 0"
    by simp
  have c: "list_all conforming (map fst [(''1'', empty_folder)])"
    by (simp add: conforming_def checkpoint_eval)
  from retention_zero_keeps_all[OF ex_save_zero k c] ex_save_zero k c show ?thesis
    by auto
qed

lemma ex_save_prunes:
  "save_checkpoint 7 ex_saving ex_checkpoints =
     Inr [(''4'', empty_folder), (''6'', empty_folder), (''5'', empty_folder),
          (''3'', empty_folder), (''7'', ex_saved_folder)]"
  by (simp add: checkpoint_eval ex_controller_defs ex_saved_folder_def ex_checkpoints_def)

end
